theory Spec2Isabelle
  imports Complex_Main
begin

section \<open>Timer call-site profiler (scripts/performance-profiler.js)\<close>

text \<open>
  The profiler replaces the four process-wide timer functions by recording wrappers,
  lets the host run for a fixed window, restores the functions and prints a ranking of
  the call sites that scheduled timers. JavaScript strings are modelled as \<open>string\<close>
  (characters below 256), the statistics \<open>Map\<close> as an association list in insertion
  order, the handle \<open>Set\<close> as a duplicate-free list in insertion order, the numbers of
  the option parsing as integers or \<open>NaN\<close>, and the numbers of the percentages as
  double-precision values with their exact rounding. The console snippet of the
  debugging guide has an extraction function of its own, modelled beside the
  profiler's.
\<close>

subsection \<open>String primitives\<close>

definition is_space :: "char \<Rightarrow> bool" where
  \<comment> \<open>The class \<open>\s\<close> (and the characters \<open>trim\<close> strips) among the characters below 256:
      TAB, LF, VT, FF, CR, SPACE, NBSP.\<close>
  "is_space c = (c \<in> set [CHR 0x09, CHR 0x0A, CHR 0x0B, CHR 0x0C, CHR 0x0D, CHR 0x20, CHR 0xA0])"

definition non_space :: "char \<Rightarrow> bool" where
  \<comment> \<open>The class \<open>[^\s]\<close>.\<close>
  "non_space c = (\<not> is_space c)"

definition is_digit :: "char \<Rightarrow> bool" where
  \<comment> \<open>The class \<open>\d\<close>.\<close>
  "is_digit c = (c \<in> set ''0123456789'')"

definition trim :: "string \<Rightarrow> string" where
  \<comment> \<open>\<open>String.prototype.trim\<close>.\<close>
  "trim s = rev (dropWhile is_space (rev (dropWhile is_space s)))"

definition startsWith :: "string \<Rightarrow> string \<Rightarrow> bool" where
  \<comment> \<open>\<open>s.startsWith(p)\<close>.\<close>
  "startsWith s p = (take (length p) s = p)"

fun split_on :: "char \<Rightarrow> string \<Rightarrow> string list" where
  \<comment> \<open>\<open>s.split(c)\<close> for a one-character separator; the empty string gives one empty piece.\<close>
  "split_on c [] = [[]]"
| "split_on c (x # xs) =
     (if x = c then [] # split_on c xs
      else (case split_on c xs of
              [] \<Rightarrow> [[x]]
            | y # ys \<Rightarrow> (x # y) # ys))"

definition pop :: "'a list \<Rightarrow> 'a option" where
  \<comment> \<open>The value of \<open>Array.prototype.pop\<close>: the last element, \<open>undefined\<close> on an empty array.\<close>
  "pop xs = (if xs = [] then None else Some (last xs))"

subsection \<open>Backtracking regular expressions\<close>

text \<open>
  The fragment of JavaScript regular expressions the profiler uses: literal characters,
  greedy and lazy \<open>+\<close> over a character class, the greedy \<open>?\<close>, capturing groups and
  concatenation. A run returns every way to match, in the order a backtracking matcher
  tries them, so the head of the list is the match JavaScript reports.
\<close>

datatype rx =
    Lit char
  | Plus "char \<Rightarrow> bool"
  | PlusLazy "char \<Rightarrow> bool"
  | Opt rx
  | Grp nat rx
  | Seq rx rx

type_synonym captures = "(nat \<times> string) list"

fun rx_run :: "rx \<Rightarrow> string \<times> captures \<Rightarrow> (string \<times> captures) list" where
  "rx_run (Lit c) (s, cs) =
     (case s of [] \<Rightarrow> [] | x # xs \<Rightarrow> if x = c then [(xs, cs)] else [])"
| "rx_run (Plus p) (s, cs) =
     map (\<lambda>k. (drop k s, cs)) (rev [1 ..< Suc (length (takeWhile p s))])"
| "rx_run (PlusLazy p) (s, cs) =
     map (\<lambda>k. (drop k s, cs)) [1 ..< Suc (length (takeWhile p s))]"
| "rx_run (Opt r) (s, cs) = rx_run r (s, cs) @ [(s, cs)]"
| "rx_run (Grp n r) (s, cs) =
     map (\<lambda>(s', cs'). (s', (n, take (length s - length s') s) # cs')) (rx_run r (s, cs))"
| "rx_run (Seq r1 r2) (s, cs) = concat (map (rx_run r2) (rx_run r1 (s, cs)))"

fun rx_exec :: "rx \<Rightarrow> string \<Rightarrow> captures option" where
  \<comment> \<open>\<open>s.match(r)\<close> for a regular expression without flags: the first start position with
      a match wins; \<open>None\<close> is \<open>null\<close>.\<close>
  "rx_exec r [] = (case rx_run r ([], []) of [] \<Rightarrow> None | m # _ \<Rightarrow> Some (snd m))"
| "rx_exec r (c # s) =
     (case rx_run r (c # s, []) of [] \<Rightarrow> rx_exec r s | m # _ \<Rightarrow> Some (snd m))"

definition seqs :: "rx list \<Rightarrow> rx" where
  "seqs rs = foldr Seq (butlast rs) (last rs)"

definition location_rx :: rx where
  \<comment> \<open>\<open>/at\s+(?:([^\s]+)\s+)?\(?([^\s]+?):(\d+):(\d+)\)?/\<close>\<close>
  "location_rx = seqs
     [Lit CHR ''a'', Lit CHR ''t'', Plus is_space,
      Opt (Seq (Grp 1 (Plus non_space)) (Plus is_space)),
      Opt (Lit CHR ''(''),
      Grp 2 (PlusLazy non_space), Lit CHR '':'',
      Grp 3 (Plus is_digit), Lit CHR '':'',
      Grp 4 (Plus is_digit),
      Opt (Lit CHR '')'')]"

definition caller_rx :: rx where
  \<comment> \<open>\<open>/at\s+([^\s]+)\s+\(?([^\s]+?):(\d+):(\d+)\)?/\<close>\<close>
  "caller_rx = seqs
     [Lit CHR ''a'', Lit CHR ''t'', Plus is_space,
      Grp 1 (Plus non_space), Plus is_space,
      Opt (Lit CHR ''(''),
      Grp 2 (PlusLazy non_space), Lit CHR '':'',
      Grp 3 (Plus is_digit), Lit CHR '':'',
      Grp 4 (Plus is_digit),
      Opt (Lit CHR '')'')]"

definition grp :: "captures \<Rightarrow> nat \<Rightarrow> string" where
  \<comment> \<open>A group that took part in the match.\<close>
  "grp cs n = (case map_of cs n of None \<Rightarrow> [] | Some v \<Rightarrow> v)"

definition basename :: "string \<Rightarrow> string" where
  \<comment> \<open>\<open>filePath.split('/').pop() || filePath\<close>\<close>
  "basename filePath =
     (case pop (split_on CHR ''/'' filePath) of
        None \<Rightarrow> filePath
      | Some b \<Rightarrow> if b = [] then filePath else b)"

subsection \<open>Call-site signatures\<close>

definition signature_of :: "captures \<Rightarrow> string" where
  \<comment> \<open>The \<open>return\<close> inside the loop of \<open>extractCallSiteSignature\<close>.\<close>
  "signature_of m =
     (case map_of m 1 of
        Some functionName \<Rightarrow>
          (if functionName \<noteq> []
           then basename (grp m 2) @ '':'' @ grp m 3 @ '' ('' @ functionName @ '')''
           else basename (grp m 2) @ '':'' @ grp m 3)
      | None \<Rightarrow> basename (grp m 2) @ '':'' @ grp m 3)"

fun scanSignature :: "string list \<Rightarrow> string option" where
  \<comment> \<open>The loop of \<open>extractCallSiteSignature\<close> over the lines from index 1 on; \<open>None\<close> when it
      ends without returning.\<close>
  "scanSignature [] = None"
| "scanSignature (l # ls) =
     (let line = trim l in
      if line = [] \<or> startsWith line ''at '' then scanSignature ls
      else (case rx_exec location_rx line of
              Some m \<Rightarrow> Some (signature_of m)
            | None \<Rightarrow> scanSignature ls))"

definition extractCallSiteSignature :: "string option \<Rightarrow> string" where
  \<comment> \<open>\<open>None\<close> is an absent stack (\<open>undefined\<close>).\<close>
  "extractCallSiteSignature stack =
     (case stack of
        None \<Rightarrow> ''<unknown>''
      | Some s \<Rightarrow>
          if s = [] then ''<unknown>''
          else (case scanSignature (drop 1 (split_on CHR 0x0A s)) of
                  Some sig \<Rightarrow> sig
                | None \<Rightarrow> ''<unknown call site>''))"

definition caller_of :: "captures \<Rightarrow> string" where
  \<comment> \<open>The \<open>return\<close> inside the loop of \<open>extractCallerInfo\<close>.\<close>
  "caller_of m = grp m 1 @ '' ('' @ basename (grp m 2) @ '':'' @ grp m 3 @ '')''"

fun scanCaller :: "string list \<Rightarrow> string option" where
  "scanCaller [] = None"
| "scanCaller (l # ls) =
     (case rx_exec caller_rx (trim l) of
        Some m \<Rightarrow> Some (caller_of m)
      | None \<Rightarrow> scanCaller ls)"

definition extractCallerInfo :: "string option \<Rightarrow> string" where
  \<comment> \<open>The loop runs over the indices 2, 3 and 4.\<close>
  "extractCallerInfo stack =
     (case stack of
        None \<Rightarrow> ''<unknown>''
      | Some s \<Rightarrow>
          if s = [] then ''<unknown>''
          else (case scanCaller (take 3 (drop 2 (split_on CHR 0x0A s))) of
                  Some c \<Rightarrow> c
                | None \<Rightarrow> ''<unknown>''))"

subsection \<open>The console snippet's extraction\<close>

definition site_of :: "captures \<Rightarrow> string" where
  \<comment> \<open>The \<open>return\<close> inside the loop of \<open>extractCallSite\<close>: \<open>path.split('/').pop()\<close> with
      no fallback.\<close>
  "site_of m =
     (let filename = (case pop (split_on CHR ''/'' (grp m 2)) of None \<Rightarrow> ''undefined'' | Some b \<Rightarrow> b) in
      case map_of m 1 of
        Some func \<Rightarrow>
          (if func \<noteq> []
           then filename @ '':'' @ grp m 3 @ '' ('' @ func @ '')''
           else filename @ '':'' @ grp m 3)
      | None \<Rightarrow> filename @ '':'' @ grp m 3)"

fun scanSite :: "string list \<Rightarrow> string option" where
  "scanSite [] = None"
| "scanSite (l # ls) =
     (case rx_exec location_rx (trim l) of
        Some m \<Rightarrow> Some (site_of m)
      | None \<Rightarrow> scanSite ls)"

definition extractCallSite :: "string option \<Rightarrow> string" where
  "extractCallSite stack =
     (case stack of
        None \<Rightarrow> ''<unknown>''
      | Some s \<Rightarrow>
          if s = [] then ''<unknown>''
          else (case scanSite (drop 1 (split_on CHR 0x0A s)) of
                  Some site \<Rightarrow> site
                | None \<Rightarrow> ''<unknown>''))"

subsection \<open>The aggregation map\<close>

record stat =
  s_count :: nat
  s_type :: string
  s_signature :: string
  s_stack :: "string option"
  s_caller :: string

type_synonym stats = "(string \<times> stat) list"

definition has :: "stats \<Rightarrow> string \<Rightarrow> bool" where
  \<comment> \<open>\<open>timerStats.has(signature)\<close>\<close>
  "has m k = (k \<in> set (map fst m))"

definition bump :: "string \<Rightarrow> stat \<Rightarrow> stat" where
  \<comment> \<open>\<open>stat.count++; stat.type = type;\<close>\<close>
  "bump tp st = st\<lparr>s_count := s_count st + 1, s_type := tp\<rparr>"

definition recordTimerCall :: "string \<Rightarrow> string option \<Rightarrow> stats \<Rightarrow> stats" where
  "recordTimerCall tp stack m =
     (let signature = extractCallSiteSignature stack in
      if has m signature
      then map (\<lambda>(k, st). if k = signature then (k, bump tp st) else (k, st)) m
      else m @ [(signature,
                 \<lparr>s_count = 1, s_type = tp, s_signature = signature, s_stack = stack,
                  s_caller = extractCallerInfo stack\<rparr>)])"

subsection \<open>The active-timer set\<close>

definition set_add :: "'a \<Rightarrow> 'a list \<Rightarrow> 'a list" where
  \<comment> \<open>\<open>Set.prototype.add\<close>\<close>
  "set_add x xs = (if x \<in> set xs then xs else xs @ [x])"

definition set_delete :: "'a \<Rightarrow> 'a list \<Rightarrow> 'a list" where
  \<comment> \<open>\<open>Set.prototype.delete\<close>\<close>
  "set_delete x xs = filter (\<lambda>y. y \<noteq> x) xs"

subsection \<open>The process: global bindings, module state, host functions\<close>

text \<open>
  A function reference is one of the host's own functions or one of the four wrappers.
  What a host function answers (the handle it returns, or the exception it throws) and
  the stack \<open>new Error().stack\<close> yields are inputs of the model; every invocation of a
  host function is logged with its argument (the delay of a scheduling call, the handle
  of a cancellation).
\<close>

type_synonym exn = string

datatype fn_ref =
    Host nat
  | TrackedSetTimeout
  | TrackedSetInterval
  | TrackedClearTimeout
  | TrackedClearInterval

record bindings =
  setTimeout :: fn_ref
  setInterval :: fn_ref
  clearTimeout :: fn_ref
  clearInterval :: fn_ref

record process =
  global :: bindings
  originalSetTimeout :: fn_ref
  originalSetInterval :: fn_ref
  originalClearTimeout :: fn_ref
  originalClearInterval :: fn_ref
  timerStats :: stats
  activeTimers :: "nat list"
  native_calls :: "(fn_ref \<times> nat) list"

definition load :: "bindings \<Rightarrow> process" where
  \<comment> \<open>The module's constants: the captured originals, an empty map, an empty set.\<close>
  "load g =
     \<lparr>global = g,
      originalSetTimeout = setTimeout g,
      originalSetInterval = setInterval g,
      originalClearTimeout = clearTimeout g,
      originalClearInterval = clearInterval g,
      timerStats = [],
      activeTimers = [],
      native_calls = []\<rparr>"

definition native :: "fn_ref \<Rightarrow> nat \<Rightarrow> process \<Rightarrow> process" where
  "native f a w = w\<lparr>native_calls := native_calls w @ [(f, a)]\<rparr>"

definition trackedSetTimeout ::
  "string option \<Rightarrow> nat \<Rightarrow> exn + nat \<Rightarrow> process \<Rightarrow> (exn + nat) \<times> process" where
  "trackedSetTimeout stack delay answer w =
     (let w1 = w\<lparr>timerStats := recordTimerCall ''setTimeout'' stack (timerStats w)\<rparr>;
          w2 = native (originalSetTimeout w1) delay w1
      in case answer of
           Inl e \<Rightarrow> (Inl e, w2)
         | Inr timerId \<Rightarrow> (Inr timerId, w2\<lparr>activeTimers := set_add timerId (activeTimers w2)\<rparr>))"

definition trackedSetInterval ::
  "string option \<Rightarrow> nat \<Rightarrow> exn + nat \<Rightarrow> process \<Rightarrow> (exn + nat) \<times> process" where
  "trackedSetInterval stack delay answer w =
     (let w1 = w\<lparr>timerStats := recordTimerCall ''setInterval'' stack (timerStats w)\<rparr>;
          w2 = native (originalSetInterval w1) delay w1
      in case answer of
           Inl e \<Rightarrow> (Inl e, w2)
         | Inr timerId \<Rightarrow> (Inr timerId, w2\<lparr>activeTimers := set_add timerId (activeTimers w2)\<rparr>))"

definition trackedClearTimeout ::
  "nat \<Rightarrow> exn + nat \<Rightarrow> process \<Rightarrow> (exn + nat) \<times> process" where
  "trackedClearTimeout timerId answer w =
     (let w1 = w\<lparr>activeTimers := set_delete timerId (activeTimers w)\<rparr>
      in (answer, native (originalClearTimeout w1) timerId w1))"

definition trackedClearInterval ::
  "nat \<Rightarrow> exn + nat \<Rightarrow> process \<Rightarrow> (exn + nat) \<times> process" where
  "trackedClearInterval timerId answer w =
     (let w1 = w\<lparr>activeTimers := set_delete timerId (activeTimers w)\<rparr>
      in (answer, native (originalClearInterval w1) timerId w1))"

text \<open>A call through one of the four global names goes to whatever is bound there.\<close>

datatype timer_fn = SetTimeout | SetInterval | ClearTimeout | ClearInterval

record call =
  c_fn :: timer_fn
  c_stack :: "string option"
  c_arg :: nat
  c_answer :: "exn + nat"

fun binding_of :: "timer_fn \<Rightarrow> bindings \<Rightarrow> fn_ref" where
  "binding_of SetTimeout g = setTimeout g"
| "binding_of SetInterval g = setInterval g"
| "binding_of ClearTimeout g = clearTimeout g"
| "binding_of ClearInterval g = clearInterval g"

fun apply_fn :: "fn_ref \<Rightarrow> call \<Rightarrow> process \<Rightarrow> (exn + nat) \<times> process" where
  "apply_fn (Host f) c w = (c_answer c, native (Host f) (c_arg c) w)"
| "apply_fn TrackedSetTimeout c w = trackedSetTimeout (c_stack c) (c_arg c) (c_answer c) w"
| "apply_fn TrackedSetInterval c w = trackedSetInterval (c_stack c) (c_arg c) (c_answer c) w"
| "apply_fn TrackedClearTimeout c w = trackedClearTimeout (c_arg c) (c_answer c) w"
| "apply_fn TrackedClearInterval c w = trackedClearInterval (c_arg c) (c_answer c) w"

definition call_global :: "call \<Rightarrow> process \<Rightarrow> (exn + nat) \<times> process" where
  "call_global c w = apply_fn (binding_of (c_fn c) (global w)) c w"

definition install :: "process \<Rightarrow> process" where
  "install w =
     w\<lparr>global := \<lparr>setTimeout = TrackedSetTimeout, setInterval = TrackedSetInterval,
                   clearTimeout = TrackedClearTimeout, clearInterval = TrackedClearInterval\<rparr>\<rparr>"

definition restore :: "process \<Rightarrow> process" where
  "restore w =
     w\<lparr>global := \<lparr>setTimeout = originalSetTimeout w, setInterval = originalSetInterval w,
                   clearTimeout = originalClearTimeout w, clearInterval = originalClearInterval w\<rparr>\<rparr>"

subsection \<open>Command-line options\<close>

text \<open>
  The numbers of the option parsing are integers or \<open>NaN\<close> (\<open>None\<close>).
\<close>

record cli =
  v_help :: bool
  v_duration :: string
  v_output :: string
  v_top :: string

definition digit_value :: "char \<Rightarrow> int" where
  "digit_value c = int (of_char c) - 48"

definition parseInt10 :: "string \<Rightarrow> int option" where
  \<comment> \<open>\<open>parseInt(s, 10)\<close>: leading white space, an optional sign, the longest run of
      decimal digits; \<open>NaN\<close> when there is no digit.\<close>
  "parseInt10 s =
     (let t = dropWhile is_space s;
          negative = (t \<noteq> [] \<and> hd t = CHR ''-'');
          u = (if t \<noteq> [] \<and> (hd t = CHR ''+'' \<or> hd t = CHR ''-'') then tl t else t);
          z = takeWhile is_digit u
      in if z = [] then None
         else Some ((if negative then - 1 else 1) * foldl (\<lambda>a c. 10 * a + digit_value c) 0 z))"

definition or_else :: "int option \<Rightarrow> int \<Rightarrow> int option" where
  \<comment> \<open>\<open>x || d\<close> on numbers: \<open>NaN\<close> and zero are falsy.\<close>
  "or_else x d = (case x of None \<Rightarrow> Some d | Some n \<Rightarrow> if n = 0 then Some d else Some n)"

definition math_max :: "int \<Rightarrow> int option \<Rightarrow> int option" where
  \<comment> \<open>\<open>Math.max(a, x)\<close>\<close>
  "math_max a x = (case x of None \<Rightarrow> None | Some n \<Rightarrow> Some (max a n))"

definition isNaN :: "int option \<Rightarrow> bool" where
  "isNaN x = (x = None)"

definition less_than :: "int option \<Rightarrow> int \<Rightarrow> bool" where
  \<comment> \<open>\<open>x < a\<close>, false on \<open>NaN\<close>.\<close>
  "less_than x a = (case x of None \<Rightarrow> False | Some n \<Rightarrow> n < a)"

definition lower_char :: "char \<Rightarrow> char" where
  "lower_char c =
     (let n = (of_char c :: nat)
      in if (65 \<le> n \<and> n \<le> 90) \<or> (192 \<le> n \<and> n \<le> 222 \<and> n \<noteq> 215) then char_of (n + 32) else c)"

definition toLowerCase :: "string \<Rightarrow> string" where
  "toLowerCase s = map lower_char s"

record config =
  duration :: "int option"
  outputFormat :: string
  topCount :: "int option"

datatype message = BadOutput | BadDuration | ProfilingError exn | UncaughtException exn

definition configure :: "cli \<Rightarrow> (nat \<times> message list) + config" where
  \<comment> \<open>The module's top level up to the capture of the originals: \<open>Inl\<close> is
      \<open>process.exit\<close> with its status and what went to the error stream.\<close>
  "configure v =
     (if v_help v then Inl (0, [])
      else
        let duration = math_max 1 (or_else (parseInt10 (v_duration v)) 2);
            outputFormat = toLowerCase (v_output v);
            topCount = math_max 1 (or_else (parseInt10 (v_top v)) 20)
        in if outputFormat \<noteq> ''table'' \<and> outputFormat \<noteq> ''json'' then Inl (1, [BadOutput])
           else if isNaN duration \<or> less_than duration 1 then Inl (1, [BadDuration])
           else Inr \<lparr>duration = duration, outputFormat = outputFormat, topCount = topCount\<rparr>)"

subsection \<open>Numbers of the report\<close>

text \<open>
  The percentages are computed in IEEE double precision. A double that is not negative
  is \<open>NaN\<close>, \<open>Infinity\<close> or an exact fraction; division and multiplication round the
  exact result to the nearest double with 53 significant bits, ties to even. The counts
  are below \<open>2^53\<close>, and no result leaves the normal range.
\<close>

datatype number = NaN | Infinity | Finite int int

function bits :: "int \<Rightarrow> nat" where
  \<comment> \<open>The length of the binary numeral.\<close>
  "bits n = (if n \<le> 0 then 0 else Suc (bits (n div 2)))"
  by pat_completeness auto
termination
  by (relation "measure nat") auto

declare bits.simps [simp del]

definition floor_log2 :: "int \<Rightarrow> int \<Rightarrow> int" where
  \<comment> \<open>The integer \<open>e\<close> with \<open>2^e \<le> p / q < 2^(e + 1)\<close>, for positive \<open>p\<close> and \<open>q\<close>.\<close>
  "floor_log2 p q =
     (let d = int (bits p) - int (bits q)
      in if q * 2 ^ nat d \<le> p * 2 ^ nat (- d) then d else d - 1)"

definition round_half_even :: "int \<Rightarrow> int \<Rightarrow> int" where
  \<comment> \<open>The integer nearest to \<open>a / b\<close>, the even one of two.\<close>
  "round_half_even a b =
     (let n = a div b; r = a mod b
      in if 2 * r < b then n
         else if b < 2 * r then n + 1
         else if even n then n else n + 1)"

definition round_double :: "int \<Rightarrow> int \<Rightarrow> number" where
  \<comment> \<open>The double nearest to \<open>p / q\<close>, for positive \<open>p\<close> and \<open>q\<close>.\<close>
  "round_double p q =
     (let e = floor_log2 p q - 52;
          m = round_half_even (p * 2 ^ nat (- e)) (q * 2 ^ nat e)
      in Finite (m * 2 ^ nat e) (2 ^ nat (- e)))"

definition js_div :: "nat \<Rightarrow> nat \<Rightarrow> number" where
  \<comment> \<open>\<open>a / b\<close> on two counts.\<close>
  "js_div a b =
     (if b = 0 then (if a = 0 then NaN else Infinity)
      else if a = 0 then Finite 0 1
      else round_double (int a) (int b))"

definition js_mul :: "number \<Rightarrow> int \<Rightarrow> number" where
  \<comment> \<open>\<open>x * k\<close> for a positive integer \<open>k\<close>.\<close>
  "js_mul x k =
     (case x of
        NaN \<Rightarrow> NaN
      | Infinity \<Rightarrow> Infinity
      | Finite a b \<Rightarrow> if a = 0 then Finite 0 1 else round_double (a * k) b)"

definition fixed_units :: "nat \<Rightarrow> number \<Rightarrow> int" where
  \<comment> \<open>\<open>toFixed(d)\<close> picks the integer \<open>n\<close> with \<open>n / 10^d\<close> nearest to the value, the larger
      of two.\<close>
  "fixed_units d x =
     (case x of
        Finite a b \<Rightarrow> (2 * a * 10 ^ d + b) div (2 * b)
      | _ \<Rightarrow> 0)"

function show_int :: "int \<Rightarrow> string" where
  \<comment> \<open>The decimal numeral of an integer that is not negative.\<close>
  "show_int n =
     (if n < 10 then [''0123456789'' ! nat n]
      else show_int (n div 10) @ [''0123456789'' ! nat (n mod 10)])"
  by pat_completeness auto
termination
  by (relation "measure nat") auto

declare show_int.simps [simp del]

definition toFixed :: "nat \<Rightarrow> number \<Rightarrow> string" where
  \<comment> \<open>\<open>x.toFixed(d)\<close> for a value below \<open>10^21\<close>.\<close>
  "toFixed d x =
     (case x of
        NaN \<Rightarrow> ''NaN''
      | Infinity \<Rightarrow> ''Infinity''
      | Finite a b \<Rightarrow>
          let n = fixed_units d x;
              whole = show_int (n div 10 ^ d);
              frac = show_int (n mod 10 ^ d)
          in if d = 0 then whole
             else whole @ ''.'' @ replicate (d - length frac) CHR ''0'' @ frac)"

definition percent :: "nat \<Rightarrow> nat \<Rightarrow> number" where
  \<comment> \<open>\<open>(count / totalCalls) * 100\<close>\<close>
  "percent count totalCalls = js_mul (js_div count totalCalls) 100"

definition percentage :: "nat \<Rightarrow> nat \<Rightarrow> nat \<Rightarrow> string" where
  \<comment> \<open>\<open>((count / totalCalls) * 100).toFixed(d)\<close>\<close>
  "percentage d count totalCalls = toFixed d (percent count totalCalls)"

subsection \<open>The report\<close>

definition by_count_desc :: "stat \<Rightarrow> stat \<Rightarrow> int" where
  \<comment> \<open>\<open>(a, b) => b.count - a.count\<close>\<close>
  "by_count_desc a b = int (s_count b) - int (s_count a)"

fun insert_by :: "('a \<Rightarrow> 'a \<Rightarrow> int) \<Rightarrow> 'a \<Rightarrow> 'a list \<Rightarrow> 'a list" where
  "insert_by cmp x [] = [x]"
| "insert_by cmp x (y # ys) = (if cmp x y \<le> 0 then x # y # ys else y # insert_by cmp x ys)"

definition sort_by :: "('a \<Rightarrow> 'a \<Rightarrow> int) \<Rightarrow> 'a list \<Rightarrow> 'a list" where
  \<comment> \<open>\<open>Array.prototype.sort\<close> with a comparator: a stable sort, here by insertion from
      the right end.\<close>
  "sort_by cmp xs = foldr (insert_by cmp) xs []"

definition slice0 :: "int option \<Rightarrow> 'a list \<Rightarrow> 'a list" where
  \<comment> \<open>\<open>xs.slice(0, n)\<close>: \<open>NaN\<close> counts as zero, a negative end counts from the end.\<close>
  "slice0 n xs =
     (case n of
        None \<Rightarrow> []
      | Some k \<Rightarrow> if k < 0 then take (nat (int (length xs) + k)) xs else take (nat k) xs)"

definition topCallSites :: "int option \<Rightarrow> stats \<Rightarrow> stat list" where
  \<comment> \<open>\<open>Array.from(timerStats.values())\<close>, sorted, cut.\<close>
  "topCallSites n m = slice0 n (sort_by by_count_desc (map snd m))"

definition totalCalls :: "stat list \<Rightarrow> nat" where
  \<comment> \<open>\<open>topCallSites.reduce((sum, s) => sum + s.count, 0)\<close>\<close>
  "totalCalls tops = foldl (\<lambda>sum s. sum + s_count s) 0 tops"

definition table_percentages :: "stat list \<Rightarrow> string list" where
  \<comment> \<open>The frequency analysis of \<open>formatTableOutput\<close>: one decimal, the first five rows.\<close>
  "table_percentages tops = map (\<lambda>site. percentage 1 (s_count site) (totalCalls tops)) (take 5 tops)"

definition json_percentages :: "stat list \<Rightarrow> string list" where
  \<comment> \<open>The \<open>percentage\<close> fields of \<open>formatJsonOutput\<close>: two decimals, every row.\<close>
  "json_percentages tops = map (\<lambda>site. percentage 2 (s_count site) (totalCalls tops)) tops"

record report =
  r_totalCalls :: nat
  r_activeTimers :: nat
  r_uniqueCallSites :: nat
  r_top :: "stat list"
  r_percentages :: "string list"

definition format_report :: "config \<Rightarrow> process \<Rightarrow> report" where
  \<comment> \<open>What \<open>formatJsonOutput\<close> or \<open>formatTableOutput\<close> puts into the output.\<close>
  "format_report cfg w =
     (let tops = topCallSites (topCount cfg) (timerStats w)
      in \<lparr>r_totalCalls = totalCalls tops,
          r_activeTimers = length (activeTimers w),
          r_uniqueCallSites = length (timerStats w),
          r_top = tops,
          r_percentages =
            (if outputFormat cfg = ''json'' then json_percentages tops else table_percentages tops)\<rparr>)"

subsection \<open>The run\<close>

text \<open>
  What the host does during a run is an input: the stacks and answers of the three
  scheduling calls the profiler makes itself, the answer to the end-of-window timer,
  what other code does while the profiler waits, the stack and answer of the
  \<open>setInterval\<close> in the profiler's own delayed callback, and whether printing the
  report throws.

  The delayed callback runs once during the wait: its delay of 100 ms is below the
  shortest window of 1000 ms. Other code acts before and after it: it calls through
  the global names, and either catches what such a call throws or does not, or it
  throws by itself. An exception nothing catches ends the process then and there (the
  script installs no handler for it): the message goes to the error stream and the
  status is 1. An exception that rejects the promise of \<open>runProfiler\<close> reaches
  \<open>.catch\<close>.
\<close>

datatype event =
    Through call bool
  | Fails exn

datatype failure = Rejected exn | Uncaught exn

record env =
  e_self1 :: "string option \<times> (exn + nat)"
  e_self2 :: "string option \<times> (exn + nat)"
  e_self3 :: "string option \<times> (exn + nat)"
  e_wait :: "exn + nat"
  e_before :: "event list"
  e_nested :: "string option \<times> (exn + nat)"
  e_after :: "event list"
  e_print :: "exn option"

definition self_call :: "timer_fn \<Rightarrow> nat \<Rightarrow> string option \<times> (exn + nat) \<Rightarrow> call" where
  "self_call f delay e = \<lparr>c_fn = f, c_stack = fst e, c_arg = delay, c_answer = snd e\<rparr>"

fun host_events :: "event list \<Rightarrow> process \<Rightarrow> exn option \<times> process" where
  \<comment> \<open>Other code while the profiler waits, up to the first exception nothing catches.
      \<open>Through c caught\<close> is a call through a global name, \<open>caught\<close> telling whether the
      caller catches what it throws.\<close>
  "host_events [] w = (None, w)"
| "host_events (Fails e # evs) w = (Some e, w)"
| "host_events (Through c caught # evs) w =
     (case call_global c w of
        (Inl e, w1) \<Rightarrow> if caught then host_events evs w1 else (Some e, w1)
      | (Inr _, w1) \<Rightarrow> host_events evs w1)"

definition callback :: "env \<Rightarrow> process \<Rightarrow> exn option \<times> process" where
  \<comment> \<open>\<open>() => { setInterval(() => {}, 100); }\<close>, run by the host's timer: what the call
      throws, nothing catches.\<close>
  "callback env w =
     (case call_global (self_call SetInterval 100 (e_nested env)) w of
        (Inl e, w1) \<Rightarrow> (Some e, w1)
      | (Inr _, w1) \<Rightarrow> (None, w1))"

definition window :: "env \<Rightarrow> process \<Rightarrow> exn option \<times> process" where
  \<comment> \<open>The time between the scheduling of the end-of-window timer and its firing.\<close>
  "window env w =
     (case host_events (e_before env) w of
        (Some e, w1) \<Rightarrow> (Some e, w1)
      | (None, w1) \<Rightarrow>
     (case callback env w1 of
        (Some e, w2) \<Rightarrow> (Some e, w2)
      | (None, w2) \<Rightarrow> host_events (e_after env) w2))"

definition self_schedule :: "env \<Rightarrow> process \<Rightarrow> (exn + nat) \<times> process" where
  \<comment> \<open>\<open>setInterval(() => {}, 500); setInterval(() => {}, 250); setTimeout(..., 100);\<close>
      through the global names.\<close>
  "self_schedule env w =
     (case call_global (self_call SetInterval 500 (e_self1 env)) w of
        (Inl e, w1) \<Rightarrow> (Inl e, w1)
      | (Inr _, w1) \<Rightarrow>
     (case call_global (self_call SetInterval 250 (e_self2 env)) w1 of
        (Inl e, w2) \<Rightarrow> (Inl e, w2)
      | (Inr _, w2) \<Rightarrow> call_global (self_call SetTimeout 100 (e_self3 env)) w2))"

definition schedule_wait :: "config \<Rightarrow> env \<Rightarrow> process \<Rightarrow> (exn + nat) \<times> process" where
  \<comment> \<open>\<open>originalSetTimeout(resolve, duration * 1000)\<close> in the executor of the promise.\<close>
  "schedule_wait cfg env w =
     (let ms = (case duration cfg of None \<Rightarrow> 0 | Some d \<Rightarrow> nat (d * 1000))
      in (e_wait env, native (originalSetTimeout w) ms w))"

definition wait :: "config \<Rightarrow> env \<Rightarrow> process \<Rightarrow> (failure + nat) \<times> process" where
  \<comment> \<open>\<open>await new Promise((resolve) => { originalSetTimeout(resolve, duration * 1000); })\<close>:
      an exception of the executor rejects the promise; otherwise the window passes.\<close>
  "wait cfg env w =
     (case schedule_wait cfg env w of
        (Inl e, w1) \<Rightarrow> (Inl (Rejected e), w1)
      | (Inr h, w1) \<Rightarrow>
          (case window env w1 of
             (Some e, w2) \<Rightarrow> (Inl (Uncaught e), w2)
           | (None, w2) \<Rightarrow> (Inr h, w2)))"

definition runProfiler :: "config \<Rightarrow> env \<Rightarrow> process \<Rightarrow> (failure + report) \<times> process" where
  "runProfiler cfg env w =
     (case self_schedule env (install w) of
        (Inl e, w1) \<Rightarrow> (Inl (Rejected e), w1)
      | (Inr _, w1) \<Rightarrow>
     (case wait cfg env w1 of
        (Inl f, w2) \<Rightarrow> (Inl f, w2)
      | (Inr _, w2) \<Rightarrow>
          let w3 = restore w2
          in (case e_print env of
                Some e \<Rightarrow> (Inl (Rejected e), w3)
              | None \<Rightarrow> (Inr (format_report cfg w3), w3))))"

record outcome =
  o_status :: "nat option"
  o_stderr :: "message list"
  o_global :: bindings
  o_report :: "report option"

definition main :: "cli \<Rightarrow> bindings \<Rightarrow> env \<Rightarrow> outcome" where
  \<comment> \<open>The module from top to bottom; \<open>.catch\<close> prints the error and exits with status 1.\<close>
  "main v g env =
     (case configure v of
        Inl (status, msgs) \<Rightarrow>
          \<lparr>o_status = Some status, o_stderr = msgs, o_global = g, o_report = None\<rparr>
      | Inr cfg \<Rightarrow>
          (case runProfiler cfg env (load g) of
             (Inl (Rejected error), w) \<Rightarrow>
               \<lparr>o_status = Some 1, o_stderr = [ProfilingError error], o_global = global w,
                o_report = None\<rparr>
           | (Inl (Uncaught error), w) \<Rightarrow>
               \<lparr>o_status = Some 1, o_stderr = [UncaughtException error], o_global = global w,
                o_report = None\<rparr>
           | (Inr rep, w) \<Rightarrow>
               \<lparr>o_status = None, o_stderr = [], o_global = global w, o_report = Some rep\<rparr>))"

subsection \<open>Auxiliary notions for the properties\<close>

definition installed :: bindings where
  \<comment> \<open>The four wrappers.\<close>
  "installed = \<lparr>setTimeout = TrackedSetTimeout, setInterval = TrackedSetInterval,
                 clearTimeout = TrackedClearTimeout, clearInterval = TrackedClearInterval\<rparr>"

definition originals :: "process \<Rightarrow> bindings" where
  \<comment> \<open>The four captured references.\<close>
  "originals w = \<lparr>setTimeout = originalSetTimeout w, setInterval = originalSetInterval w,
                   clearTimeout = originalClearTimeout w, clearInterval = originalClearInterval w\<rparr>"

definition record_all :: "(string \<times> string option) list \<Rightarrow> stats \<Rightarrow> stats" where
  \<comment> \<open>A sequence of intercepted scheduling calls, each with its kind and its stack.\<close>
  "record_all cs m = foldl (\<lambda>m c. recordTimerCall (fst c) (snd c) m) m cs"

definition fresh_stat :: "string \<Rightarrow> string option \<Rightarrow> stat" where
  \<comment> \<open>The record \<open>recordTimerCall\<close> inserts for a new signature.\<close>
  "fresh_stat tp stack =
     \<lparr>s_count = 1, s_type = tp, s_signature = extractCallSiteSignature stack, s_stack = stack,
      s_caller = extractCallerInfo stack\<rparr>"

text \<open>Sample inputs: a host with four functions of its own, and runs on it.\<close>

definition g0 :: bindings where
  "g0 = \<lparr>setTimeout = Host 0, setInterval = Host 1, clearTimeout = Host 2, clearInterval = Host 3\<rparr>"

definition cfg0 :: config where
  "cfg0 = \<lparr>duration = Some 2, outputFormat = ''table'', topCount = Some 20\<rparr>"

definition v0 :: cli where
  "v0 = \<lparr>v_help = False, v_duration = ''2'', v_output = ''table'', v_top = ''20''\<rparr>"

definition self_stack :: "string \<Rightarrow> string \<Rightarrow> string \<Rightarrow> string option" where
  \<comment> \<open>The stack V8 gives a wrapper: the wrapper's frame, then the frame of its caller in
      the profiler's file.\<close>
  "self_stack wrapper caller line =
     Some (''Error'' @ [CHR 0x0A] @ ''    at '' @ wrapper @ '' (/x/profiler.js:''
       @ (if wrapper = ''trackedSetTimeout'' then ''194'' else ''211'') @ '':16)''
       @ [CHR 0x0A] @ ''    at '' @ caller @ '' (/x/profiler.js:'' @ line @ '':2)'')"

definition env0 :: env where
  \<comment> \<open>An idle host: no other code runs, and every call of the profiler, the one of its
      delayed callback included, is answered with a handle.\<close>
  "env0 = \<lparr>e_self1 = (self_stack ''trackedSetInterval'' ''runProfiler'' ''384'', Inr 1),
            e_self2 = (self_stack ''trackedSetInterval'' ''runProfiler'' ''385'', Inr 2),
            e_self3 = (self_stack ''trackedSetTimeout'' ''runProfiler'' ''386'', Inr 3),
            e_wait = Inr 4,
            e_before = [],
            e_nested = (self_stack ''trackedSetInterval'' ''Timeout._onTimeout'' ''387'', Inr 5),
            e_after = [],
            e_print = None\<rparr>"

definition env_wait_throws :: env where
  \<comment> \<open>The host's \<open>setTimeout\<close> throws when the end-of-window timer is scheduled.\<close>
  "env_wait_throws = env0\<lparr>e_wait := Inl ''boom''\<rparr>"

definition env_nested_throws :: env where
  \<comment> \<open>The host's \<open>setInterval\<close> throws when the delayed callback calls it.\<close>
  "env_nested_throws = env0\<lparr>e_nested := (fst (e_nested env0), Inl ''boom'')\<rparr>"

definition env_host_throws :: env where
  \<comment> \<open>Other code clears an unknown handle, the host throws, and nothing catches it.\<close>
  "env_host_throws =
     env0\<lparr>e_after := [Through \<lparr>c_fn = ClearTimeout, c_stack = None, c_arg = 9,
                                    c_answer = Inl ''boom''\<rparr> False]\<rparr>"

definition env_print_throws :: env where
  \<comment> \<open>Printing the report throws.\<close>
  "env_print_throws = env0\<lparr>e_print := Some ''EPIPE''\<rparr>"

definition v8_stack :: string where
  \<comment> \<open>A stack as V8 prints it: the wrapper's frame, then the caller's.\<close>
  "v8_stack = ''Error'' @ [CHR 0x0A] @ ''    at trackedSetTimeout (/x/profiler.js:194:16)''
      @ [CHR 0x0A] @ ''    at poll (/app/src/poller.js:42:3)''"

definition count_sum :: "stats \<Rightarrow> nat" where
  \<comment> \<open>The number of calls a map has recorded.\<close>
  "count_sum m = sum_list (map (\<lambda>kv. s_count (snd kv)) m)"

definition shown :: "nat \<Rightarrow> nat \<Rightarrow> nat \<Rightarrow> real" where
  \<comment> \<open>The number a displayed percentage denotes.\<close>
  "shown d c t = real_of_int (fixed_units d (percent c t)) / 10 ^ d"

definition site_stack :: "string \<Rightarrow> string option" where
  \<comment> \<open>A stack whose frame line does not start with \<open>at\<close>.\<close>
  "site_stack name = Some (''Error'' @ [CHR 0x0A] @ ''  called at '' @ name @ '' (/x/'' @ name @ ''.js:1:1)'')"

definition calls7 :: "(string \<times> string option) list" where
  \<comment> \<open>Seven scheduling calls from four call sites.\<close>
  "calls7 = map (\<lambda>n. (''setTimeout'', site_stack n)) [''a'', ''a'', ''b'', ''b'', ''c'', ''c'', ''d'']"

definition plain_line :: "string \<Rightarrow> bool" where
  \<comment> \<open>A line outside the guard of \<open>extractCallSiteSignature\<close> whose path, if the pattern
      matches, does not end in a slash.\<close>
  "plain_line l =
     (\<not> startsWith (trim l) ''at '' \<and>
      (case rx_exec location_rx (trim l) of
         None \<Rightarrow> True
       | Some m \<Rightarrow> pop (split_on CHR ''/'' (grp m 2)) \<noteq> Some []))"

definition odd_stack :: string where
  \<comment> \<open>A stack whose frame line does not start with \<open>at\<close>.\<close>
  "odd_stack = ''Error'' @ [CHR 0x0A] @ ''  called at poll (/app/src/poller.js:42:3)''"

definition v_abc :: cli where
  \<comment> \<open>\<open>--duration abc\<close>\<close>
  "v_abc = \<lparr>v_help = False, v_duration = ''abc'', v_output = ''table'', v_top = ''20''\<rparr>"

definition calls9 :: "(string \<times> string option) list" where
  \<comment> \<open>Nine scheduling calls from four call sites, the first site the least frequent.\<close>
  "calls9 = map (\<lambda>n. (''setInterval'', site_stack n))
     [''a'', ''b'', ''c'', ''d'', ''b'', ''d'', ''c'', ''b'', ''d'']"

definition w_active :: process where
  \<comment> \<open>The wrappers installed, two timers active.\<close>
  "w_active = (install (load g0))\<lparr>activeTimers := [1, 2]\<rparr>"

definition clear_call :: "timer_fn \<Rightarrow> nat \<Rightarrow> exn + nat \<Rightarrow> call" where
  \<comment> \<open>A cancellation through a global name.\<close>
  "clear_call f h answer = \<lparr>c_fn = f, c_stack = None, c_arg = h, c_answer = answer\<rparr>"

section \<open>Properties\<close>

subsection \<open>What the wrappers and the run leave alone\<close>

lemma native_frame [simp]:
  "global (native f a w) = global w"
  "originals (native f a w) = originals w"
  "timerStats (native f a w) = timerStats w"
  "activeTimers (native f a w) = activeTimers w"
  "native_calls (native f a w) = native_calls w @ [(f, a)]"
  by (simp_all add: native_def originals_def)

lemma apply_fn_frame [simp]:
  "global (snd (apply_fn f c w)) = global w"
  "originals (snd (apply_fn f c w)) = originals w"
  by (cases f; simp add: trackedSetTimeout_def trackedSetInterval_def trackedClearTimeout_def
        trackedClearInterval_def Let_def originals_def native_def split: sum.splits)+

lemma call_global_frame [simp]:
  "global (snd (call_global c w)) = global w"
  "originals (snd (call_global c w)) = originals w"
  by (simp_all add: call_global_def)

lemma call_global_answer: "fst (call_global c w) = c_answer c"
  by (cases "binding_of (c_fn c) (global w)")
    (simp_all add: call_global_def trackedSetTimeout_def trackedSetInterval_def
      trackedClearTimeout_def trackedClearInterval_def Let_def split: sum.splits)

lemma host_events_frame [simp]:
  "global (snd (host_events evs w)) = global w"
  "originals (snd (host_events evs w)) = originals w"
proof (induction evs w rule: host_events.induct)
  case (1 w)
  {
    case 1 show ?case by simp
  next
    case 2 show ?case by simp
  }
next
  case (2 e evs w)
  {
    case 1 show ?case by simp
  next
    case 2 show ?case by simp
  }
next
  case (3 c caught evs w)
  obtain r w1 where c: "call_global c w = (r, w1)" by (cases "call_global c w")
  have f: "global w1 = global w" "originals w1 = originals w"
    using call_global_frame [of c w] c by simp_all
  {
    case 1
    show ?case using c f 3 by (cases r) (auto split: if_splits)
  next
    case 2
    show ?case using c f 3 by (cases r) (auto split: if_splits)
  }
qed

lemma callback_frame [simp]:
  "global (snd (callback env w)) = global w"
  "originals (snd (callback env w)) = originals w"
proof -
  obtain r w1 where c: "call_global (self_call SetInterval 100 (e_nested env)) w = (r, w1)"
    by (cases "call_global (self_call SetInterval 100 (e_nested env)) w")
  have f: "global w1 = global w" "originals w1 = originals w"
    using call_global_frame [of "self_call SetInterval 100 (e_nested env)" w] c by simp_all
  show "global (snd (callback env w)) = global w"
    using c f by (simp add: callback_def split: sum.splits)
  show "originals (snd (callback env w)) = originals w"
    using c f by (simp add: callback_def split: sum.splits)
qed

lemma window_frame [simp]:
  "global (snd (window env w)) = global w"
  "originals (snd (window env w)) = originals w"
proof -
  obtain r1 w1 where a: "host_events (e_before env) w = (r1, w1)"
    by (cases "host_events (e_before env) w")
  obtain r2 w2 where b: "callback env w1 = (r2, w2)"
    by (cases "callback env w1")
  obtain r3 w3 where c: "host_events (e_after env) w2 = (r3, w3)"
    by (cases "host_events (e_after env) w2")
  have f1: "global w1 = global w" "originals w1 = originals w"
    using host_events_frame [of "e_before env" w] a by simp_all
  have f2: "global w2 = global w1" "originals w2 = originals w1"
    using callback_frame [of env w1] b by simp_all
  have f3: "global w3 = global w2" "originals w3 = originals w2"
    using host_events_frame [of "e_after env" w2] c by simp_all
  show "global (snd (window env w)) = global w"
    using a b c f1 f2 f3 by (simp add: window_def split: option.splits)
  show "originals (snd (window env w)) = originals w"
    using a b c f1 f2 f3 by (simp add: window_def split: option.splits)
qed

lemma schedule_wait_frame [simp]:
  "fst (schedule_wait cfg env w) = e_wait env"
  "global (snd (schedule_wait cfg env w)) = global w"
  "originals (snd (schedule_wait cfg env w)) = originals w"
  by (simp_all add: schedule_wait_def Let_def)

lemma install_frame [simp]:
  "global (install w) = installed"
  "originals (install w) = originals w"
  "timerStats (install w) = timerStats w"
  "activeTimers (install w) = activeTimers w"
  "native_calls (install w) = native_calls w"
  by (simp_all add: install_def installed_def originals_def)

lemma restore_frame [simp]:
  "global (restore w) = originals w"
  "originals (restore w) = originals w"
  "timerStats (restore w) = timerStats w"
  "activeTimers (restore w) = activeTimers w"
  by (simp_all add: restore_def originals_def)

lemma load_frame [simp]:
  "global (load g) = g"
  "originals (load g) = g"
  "timerStats (load g) = []"
  "activeTimers (load g) = []"
  "native_calls (load g) = []"
  by (simp_all add: load_def originals_def)

lemma self_schedule_frame:
  "global (snd (self_schedule env w)) = global w"
  "originals (snd (self_schedule env w)) = originals w"
proof -
  obtain r1 w1 where c1: "call_global (self_call SetInterval 500 (e_self1 env)) w = (r1, w1)"
    by (cases "call_global (self_call SetInterval 500 (e_self1 env)) w")
  obtain r2 w2 where c2: "call_global (self_call SetInterval 250 (e_self2 env)) w1 = (r2, w2)"
    by (cases "call_global (self_call SetInterval 250 (e_self2 env)) w1")
  have g1: "global w1 = global w" "originals w1 = originals w"
    using call_global_frame [of "self_call SetInterval 500 (e_self1 env)" w] c1 by simp_all
  have g2: "global w2 = global w1" "originals w2 = originals w1"
    using call_global_frame [of "self_call SetInterval 250 (e_self2 env)" w1] c2 by simp_all
  show "global (snd (self_schedule env w)) = global w"
    using c1 c2 g1 g2 by (simp add: self_schedule_def split: sum.splits)
  show "originals (snd (self_schedule env w)) = originals w"
    using c1 c2 g1 g2 by (simp add: self_schedule_def split: sum.splits)
qed

lemma wait_frame:
  "global (snd (wait cfg env w)) = global w"
  "originals (snd (wait cfg env w)) = originals w"
proof -
  obtain r1 w1 where a: "schedule_wait cfg env w = (r1, w1)"
    by (cases "schedule_wait cfg env w")
  obtain r2 w2 where b: "window env w1 = (r2, w2)"
    by (cases "window env w1")
  have f1: "global w1 = global w" "originals w1 = originals w"
    using schedule_wait_frame [of cfg env w] a by simp_all
  have f2: "global w2 = global w1" "originals w2 = originals w1"
    using window_frame [of env w1] b by simp_all
  show "global (snd (wait cfg env w)) = global w"
    using a b f1 f2 by (simp add: wait_def split: sum.splits option.splits)
  show "originals (snd (wait cfg env w)) = originals w"
    using a b f1 f2 by (simp add: wait_def split: sum.splits option.splits)
qed

lemma quiet_window:
  assumes "e_before env = []" and "e_after env = []" and "snd (e_nested env) = Inr h"
  shows "fst (window env w) = None"
proof -
  have "fst (call_global (self_call SetInterval 100 (e_nested env)) w) = Inr h"
    using assms(3) by (simp add: call_global_answer self_call_def)
  then obtain w1 where "call_global (self_call SetInterval 100 (e_nested env)) w = (Inr h, w1)"
    by (cases "call_global (self_call SetInterval 100 (e_nested env)) w") simp
  then show ?thesis using assms(1,2) by (simp add: window_def callback_def)
qed

lemma quiet_wait:
  assumes "e_wait env = Inr t" and "e_before env = []" and "e_after env = []"
    and "snd (e_nested env) = Inr h"
  shows "fst (wait cfg env w) = Inr t"
proof -
  obtain w1 where a: "schedule_wait cfg env w = (Inr t, w1)"
    using schedule_wait_frame(1) [of cfg env w] assms(1)
    by (cases "schedule_wait cfg env w") simp
  obtain w2 where b: "window env w1 = (None, w2)"
    using quiet_window [OF assms(2,3,4), of w1] by (cases "window env w1") simp
  show ?thesis using a b by (simp add: wait_def)
qed

subsection \<open>Install and restore\<close>

lemma idle_self_schedule: "fst (self_schedule env0 (install (load g0))) = Inr 3"
  by code_simp

lemma idle_wait: "fst (wait cfg0 env0 w) = Inr 4"
  by (rule quiet_wait [where h = 5]) (simp_all add: env0_def)

text \<open>
  C4. A run that completes its observation window (the profiler's own three scheduling
  calls return, so does the scheduling of the end-of-window timer, and no exception
  goes uncaught while the profiler waits) ends with the
  four global bindings equal to the references they held before the wrappers were
  installed, whatever was called through them during the window.
\<close>

theorem round_trip:
  assumes "fst (self_schedule env (install (load g))) = Inr v"
    and "fst (wait cfg env (snd (self_schedule env (install (load g))))) = Inr h"
  shows "global (snd (runProfiler cfg env (load g))) = g"
proof -
  obtain w1 where s: "self_schedule env (install (load g)) = (Inr v, w1)"
    using assms(1) by (cases "self_schedule env (install (load g))") simp
  obtain w2 where t: "wait cfg env w1 = (Inr h, w2)"
    using assms(2) s by (cases "wait cfg env w1") simp
  have "originals w1 = g"
    using self_schedule_frame(2) [of env "install (load g)"] s by simp
  then have "originals w2 = g"
    using wait_frame(2) [of cfg env w1] t by simp
  then show ?thesis
    using s t by (simp add: runProfiler_def Let_def split: option.splits)
qed

theorem round_trip_witness: "global (snd (runProfiler cfg0 env0 (load g0))) = g0"
  using round_trip [of env0 g0 3 cfg0 4] idle_self_schedule idle_wait by simp

subsection \<open>Exit paths\<close>

text \<open>
  C2, as the code has it. Once the options are accepted, the run ends in one of five
  ways. An exception from one of the profiler's own three scheduling calls, or from
  scheduling the end-of-window timer, reaches the handler with the wrappers still
  installed: the process exits with status 1 and nothing has restored the originals.
  An exception that nothing catches during the window (from the \<open>setInterval\<close> of the
  profiler's delayed callback, or in other code) ends the process with status 1, the
  wrappers still installed as well. An exception raised after the window, while the
  report is printed, finds the originals already restored. A run without exception
  restores them and prints the report.
\<close>

theorem main_exit_paths:
  assumes "configure v = Inr cfg"
  shows "main v g env =
     (case self_schedule env (install (load g)) of
        (Inl e, w1) \<Rightarrow>
          \<lparr>o_status = Some 1, o_stderr = [ProfilingError e], o_global = installed, o_report = None\<rparr>
      | (Inr _, w1) \<Rightarrow>
          (case schedule_wait cfg env w1 of
             (Inl e, w2) \<Rightarrow>
               \<lparr>o_status = Some 1, o_stderr = [ProfilingError e], o_global = installed,
                o_report = None\<rparr>
           | (Inr _, w2) \<Rightarrow>
               (case window env w2 of
                  (Some e, w3) \<Rightarrow>
                    \<lparr>o_status = Some 1, o_stderr = [UncaughtException e], o_global = installed,
                     o_report = None\<rparr>
                | (None, w3) \<Rightarrow>
                    (case e_print env of
                       Some e \<Rightarrow>
                         \<lparr>o_status = Some 1, o_stderr = [ProfilingError e], o_global = g,
                          o_report = None\<rparr>
                     | None \<Rightarrow>
                         \<lparr>o_status = None, o_stderr = [], o_global = g,
                          o_report = Some (format_report cfg (restore w3))\<rparr>))))"
proof -
  obtain r1 w1 where s: "self_schedule env (install (load g)) = (r1, w1)"
    by (cases "self_schedule env (install (load g))")
  have w1: "global w1 = installed" "originals w1 = g"
    using self_schedule_frame [of env "install (load g)"] s by simp_all
  obtain r2 w2 where t: "schedule_wait cfg env w1 = (r2, w2)"
    by (cases "schedule_wait cfg env w1")
  have w2: "global w2 = installed" "originals w2 = g"
    using schedule_wait_frame [of cfg env w1] t w1 by simp_all
  obtain r3 w3 where u: "window env w2 = (r3, w3)"
    by (cases "window env w2")
  have w3: "global w3 = installed" "originals w3 = g"
    using window_frame [of env w2] u w2 by simp_all
  show ?thesis
    using assms s t u w1 w2 w3
    by (simp add: main_def runProfiler_def wait_def Let_def split: sum.splits option.splits)
qed

lemma configure_v0: "configure v0 = Inr cfg0"
  by code_simp

lemma print_throws_schedule: "fst (self_schedule env_print_throws (install (load g0))) = Inr 3"
  by code_simp

theorem main_exit_paths_witness:
  "main v0 g0 env_print_throws =
     \<lparr>o_status = Some 1, o_stderr = [ProfilingError ''EPIPE''], o_global = g0, o_report = None\<rparr>"
proof -
  obtain w1 where s: "self_schedule env_print_throws (install (load g0)) = (Inr 3, w1)"
    using print_throws_schedule
    by (cases "self_schedule env_print_throws (install (load g0))") simp
  have "fst (schedule_wait cfg0 env_print_throws w1) = Inr 4"
    by (simp add: env_print_throws_def env0_def)
  then obtain w2 where t: "schedule_wait cfg0 env_print_throws w1 = (Inr 4, w2)"
    by (cases "schedule_wait cfg0 env_print_throws w1") simp
  have "fst (window env_print_throws w2) = None"
    by (rule quiet_window [where h = 5]) (simp_all add: env_print_throws_def env0_def)
  then obtain w3 where u: "window env_print_throws w2 = (None, w3)"
    by (cases "window env_print_throws w2") simp
  have p: "e_print env_print_throws = Some ''EPIPE''"
    by (simp add: env_print_throws_def)
  show ?thesis
    using main_exit_paths [OF configure_v0, of g0 env_print_throws] s t u p by simp
qed

text \<open>
  The property as the specification states it (the originals are restored on the error
  path too) fails when the host throws while the end-of-window timer is scheduled.
\<close>

theorem no_restore_on_error:
  "o_status (main v0 g0 env_wait_throws) = Some 1 \<and> o_global (main v0 g0 env_wait_throws) \<noteq> g0"
  by code_simp

text \<open>
  It fails as well when the host throws in the profiler's own delayed callback, and
  when other code throws during the window: the process ends with the wrappers bound.
\<close>

lemma no_restore_on_uncaught:
  "main v0 g0 env_nested_throws =
     \<lparr>o_status = Some 1, o_stderr = [UncaughtException ''boom''], o_global = installed,
      o_report = None\<rparr> \<and>
   main v0 g0 env_host_throws =
     \<lparr>o_status = Some 1, o_stderr = [UncaughtException ''boom''], o_global = installed,
      o_report = None\<rparr>"
  by code_simp

subsection \<open>Cancellation wrappers\<close>

lemma set_delete_set [simp]: "set (set_delete x xs) = set xs - {x}"
  by (auto simp add: set_delete_def)

lemma set_delete_absent: "x \<notin> set xs \<Longrightarrow> set_delete x xs = xs"
  by (auto simp add: set_delete_def filter_id_conv)

lemma set_delete_distinct: "distinct xs \<Longrightarrow> distinct (set_delete x xs)"
  by (simp add: set_delete_def)

lemma set_delete_length:
  "distinct xs \<Longrightarrow> x \<in> set xs \<Longrightarrow> Suc (length (set_delete x xs)) = length xs"
proof (induction xs)
  case Nil
  then show ?case by simp
next
  case (Cons y ys)
  show ?case
  proof (cases "y = x")
    case True
    then have "x \<notin> set ys" using Cons.prems by simp
    then have "set_delete x ys = ys" by (rule set_delete_absent)
    then show ?thesis using True by (simp add: set_delete_def)
  next
    case False
    then have "Suc (length (set_delete x ys)) = length ys" using Cons by simp
    then show ?thesis using False by (simp add: set_delete_def)
  qed
qed

text \<open>
  C6, as the code has it. A cancellation wrapper removes the handle from the active set
  when it is there (the set, which holds no handle twice, gets smaller by one) and
  leaves the set as it is otherwise; then it passes the same handle to the captured
  original and returns what the original returns, or throws what it throws. So it
  raises no error of its own and catches none: cancelling an unknown or an already
  cancelled handle changes nothing in the set, and raises an error only if the host's
  cancellation does. The map of the statistics is not touched. After the installation
  a cancellation through a global name is a call of the wrapper.
\<close>

theorem cancel_wrappers:
  "fst (trackedClearTimeout h answer w) = answer \<and>
   fst (trackedClearInterval h answer w) = answer \<and>
   set (activeTimers (snd (trackedClearTimeout h answer w))) = set (activeTimers w) - {h} \<and>
   set (activeTimers (snd (trackedClearInterval h answer w))) = set (activeTimers w) - {h} \<and>
   (h \<notin> set (activeTimers w) \<longrightarrow>
      activeTimers (snd (trackedClearTimeout h answer w)) = activeTimers w \<and>
      activeTimers (snd (trackedClearInterval h answer w)) = activeTimers w) \<and>
   (distinct (activeTimers w) \<longrightarrow>
      distinct (activeTimers (snd (trackedClearTimeout h answer w))) \<and>
      distinct (activeTimers (snd (trackedClearInterval h answer w)))) \<and>
   (distinct (activeTimers w) \<and> h \<in> set (activeTimers w) \<longrightarrow>
      Suc (length (activeTimers (snd (trackedClearTimeout h answer w)))) = length (activeTimers w) \<and>
      Suc (length (activeTimers (snd (trackedClearInterval h answer w)))) = length (activeTimers w)) \<and>
   activeTimers (snd (trackedClearTimeout h answer' (snd (trackedClearTimeout h answer w)))) =
     activeTimers (snd (trackedClearTimeout h answer w)) \<and>
   native_calls (snd (trackedClearTimeout h answer w)) =
     native_calls w @ [(originalClearTimeout w, h)] \<and>
   native_calls (snd (trackedClearInterval h answer w)) =
     native_calls w @ [(originalClearInterval w, h)] \<and>
   timerStats (snd (trackedClearTimeout h answer w)) = timerStats w \<and>
   timerStats (snd (trackedClearInterval h answer w)) = timerStats w \<and>
   call_global (clear_call ClearTimeout h answer) (install w) =
     trackedClearTimeout h answer (install w) \<and>
   call_global (clear_call ClearInterval h answer) (install w) =
     trackedClearInterval h answer (install w)"
proof -
  have a: "activeTimers (snd (trackedClearTimeout h answer w)) = set_delete h (activeTimers w)"
    "activeTimers (snd (trackedClearInterval h answer w)) = set_delete h (activeTimers w)"
    by (simp_all add: trackedClearTimeout_def trackedClearInterval_def Let_def native_def)
  have r: "fst (trackedClearTimeout h answer w) = answer"
    "fst (trackedClearInterval h answer w) = answer"
    by (simp_all add: trackedClearTimeout_def trackedClearInterval_def Let_def)
  have twice: "activeTimers (snd (trackedClearTimeout h answer' (snd (trackedClearTimeout h answer w)))) =
     activeTimers (snd (trackedClearTimeout h answer w))"
    by (simp add: trackedClearTimeout_def Let_def native_def set_delete_def)
  have n: "native_calls (snd (trackedClearTimeout h answer w)) =
       native_calls w @ [(originalClearTimeout w, h)]"
    "native_calls (snd (trackedClearInterval h answer w)) =
       native_calls w @ [(originalClearInterval w, h)]"
    "timerStats (snd (trackedClearTimeout h answer w)) = timerStats w"
    "timerStats (snd (trackedClearInterval h answer w)) = timerStats w"
    by (simp_all add: trackedClearTimeout_def trackedClearInterval_def Let_def native_def)
  have d: "call_global (clear_call ClearTimeout h answer) (install w) =
       trackedClearTimeout h answer (install w)"
    "call_global (clear_call ClearInterval h answer) (install w) =
       trackedClearInterval h answer (install w)"
    by (simp_all add: call_global_def clear_call_def installed_def)
  show ?thesis
    unfolding a
    using r twice [unfolded a] n d set_delete_absent [of h "activeTimers w"]
      set_delete_distinct [of "activeTimers w" h] set_delete_length [of "activeTimers w" h]
    unfolding a
    by (simp add: a)
qed

lemma w_active_timers: "activeTimers w_active = [1, 2]"
  by (simp add: w_active_def)

theorem cancel_wrappers_witness:
  "activeTimers (snd (trackedClearTimeout 7 (Inr 0) w_active)) = [1, 2] \<and>
   activeTimers (snd (trackedClearInterval 7 (Inr 0) w_active)) = [1, 2] \<and>
   length (activeTimers (snd (trackedClearTimeout 1 (Inr 0) w_active))) = 1 \<and>
   length (activeTimers (snd (trackedClearInterval 2 (Inr 0) w_active))) = 1"
proof -
  have u: "7 \<notin> set (activeTimers w_active)" by (simp add: w_active_timers)
  have d: "distinct (activeTimers w_active)" by (simp add: w_active_timers)
  have m: "1 \<in> set (activeTimers w_active)" "2 \<in> set (activeTimers w_active)"
    by (simp_all add: w_active_timers)
  have l: "length (activeTimers w_active) = 2" by (simp add: w_active_timers)
  have a: "activeTimers (snd (trackedClearTimeout 7 (Inr 0) w_active)) = activeTimers w_active"
    "activeTimers (snd (trackedClearInterval 7 (Inr 0) w_active)) = activeTimers w_active"
    using cancel_wrappers [of 7 "Inr 0" w_active] u by blast+
  have b: "Suc (length (activeTimers (snd (trackedClearTimeout 1 (Inr 0) w_active)))) = length (activeTimers w_active)"
    using cancel_wrappers [of 1 "Inr 0" w_active] d m(1) by blast
  have c: "Suc (length (activeTimers (snd (trackedClearInterval 2 (Inr 0) w_active)))) = length (activeTimers w_active)"
    using cancel_wrappers [of 2 "Inr 0" w_active] d m(2) by blast
  show ?thesis using a b c l by (simp add: w_active_timers)
qed

text \<open>
  The property as the specification states it (a cancellation never throws) fails on a
  host whose cancellation throws: the wrapper lets the exception through.
\<close>

theorem cancel_throws_with_host:
  "fst (trackedClearTimeout 7 (Inl ''boom'') w_active) = Inl ''boom'' \<and>
   fst (call_global (clear_call ClearTimeout 7 (Inl ''boom'')) w_active) = Inl ''boom'' \<and>
   fst (call_global (clear_call ClearInterval 7 (Inl ''boom'')) w_active) = Inl ''boom''"
  by code_simp

subsection \<open>Aggregation\<close>

lemma record_absent:
  "\<not> has m (extractCallSiteSignature stack) \<Longrightarrow>
   recordTimerCall tp stack m = m @ [(extractCallSiteSignature stack, fresh_stat tp stack)]"
  by (simp add: recordTimerCall_def fresh_stat_def Let_def)

lemma bump_others:
  "k \<notin> set (map fst m) \<Longrightarrow> map (\<lambda>(k', st). if k' = k then (k', f st) else (k', st)) m = m"
  by (induction m) auto

lemma record_present_last:
  assumes "\<not> has m sig" and "extractCallSiteSignature stack = sig"
  shows "recordTimerCall tp stack (m @ [(sig, st)]) = m @ [(sig, bump tp st)]"
  using assms bump_others [of sig m "bump tp"]
  by (simp add: recordTimerCall_def has_def Let_def)

lemma record_all_same:
  assumes "\<not> has m sig" and "\<forall>c \<in> set cs. extractCallSiteSignature (snd c) = sig"
  shows "record_all cs (m @ [(sig, st)]) =
           m @ [(sig, st\<lparr>s_count := s_count st + length cs,
                         s_type := (if cs = [] then s_type st else fst (last cs))\<rparr>)]"
  using assms(2)
proof (induction cs arbitrary: st)
  case Nil
  then show ?case by (simp add: record_all_def)
next
  case (Cons c cs)
  have step: "recordTimerCall (fst c) (snd c) (m @ [(sig, st)]) = m @ [(sig, bump (fst c) st)]"
    using record_present_last [OF assms(1), of "snd c" "fst c" st] Cons.prems by simp
  have "record_all (c # cs) (m @ [(sig, st)]) = record_all cs (m @ [(sig, bump (fst c) st)])"
    using step by (simp add: record_all_def)
  also have "\<dots> = m @ [(sig, (bump (fst c) st)\<lparr>s_count := s_count (bump (fst c) st) + length cs,
                         s_type := (if cs = [] then s_type (bump (fst c) st) else fst (last cs))\<rparr>)]"
    using Cons.IH Cons.prems by simp
  finally show ?case by (simp add: bump_def)
qed

text \<open>
  C5. After a non-empty sequence of scheduling calls that all yield the signature
  \<open>sig\<close>, recorded into a map that did not have \<open>sig\<close> (the fresh map among them), the
  record of \<open>sig\<close> counts the calls and carries the kind of the last one.
\<close>

theorem count_equals_calls:
  assumes "cs \<noteq> []"
    and "\<forall>c \<in> set cs. extractCallSiteSignature (snd c) = sig"
    and "\<not> has m sig"
  shows "\<exists>r. map_of (record_all cs m) sig = Some r \<and> s_count r = length cs \<and> s_type r = fst (last cs)"
proof -
  obtain c cs' where cs: "cs = c # cs'"
    using assms(1) by (cases cs) auto
  have sigc: "extractCallSiteSignature (snd c) = sig"
    using assms(2) cs by simp
  have first: "recordTimerCall (fst c) (snd c) m = m @ [(sig, fresh_stat (fst c) (snd c))]"
    using record_absent [of m "snd c" "fst c"] assms(3) sigc by simp
  have rest: "\<forall>c \<in> set cs'. extractCallSiteSignature (snd c) = sig"
    using assms(2) cs by simp
  have all: "record_all cs m =
      m @ [(sig, (fresh_stat (fst c) (snd c))\<lparr>s_count := s_count (fresh_stat (fst c) (snd c)) + length cs',
            s_type := (if cs' = [] then s_type (fresh_stat (fst c) (snd c)) else fst (last cs'))\<rparr>)]"
    using record_all_same [OF assms(3) rest, of "fresh_stat (fst c) (snd c)"] first cs
    by (simp add: record_all_def)
  have absent: "map_of m sig = None"
    using assms(3) by (simp add: has_def map_of_eq_None_iff)
  show ?thesis
    using all absent cs by (simp add: map_add_def fresh_stat_def)
qed

lemma v8_stack_signature: "extractCallSiteSignature (Some v8_stack) = ''<unknown call site>''"
  by code_simp

theorem count_equals_calls_witness:
  "\<exists>r. map_of (record_all [(''setTimeout'', Some v8_stack), (''setInterval'', Some v8_stack),
                            (''setInterval'', Some ''Error'')] []) ''<unknown call site>'' = Some r
       \<and> s_count r = 3 \<and> s_type r = ''setInterval''"
proof -
  have e: "extractCallSiteSignature (Some ''Error'') = ''<unknown call site>''"
    by code_simp
  show ?thesis
    using count_equals_calls [of "[(''setTimeout'', Some v8_stack), (''setInterval'', Some v8_stack),
                            (''setInterval'', Some ''Error'')]" "''<unknown call site>''" "[]"]
      v8_stack_signature e
    by (simp add: has_def numeral_3_eq_3)
qed

subsection \<open>Ranking\<close>

lemma insert_by_insort:
  "insert_by by_count_desc x ys = insort_key (\<lambda>s. - int (s_count s)) x ys"
  by (induction ys) (simp_all add: by_count_desc_def)

lemma sort_by_sort_key:
  "sort_by by_count_desc xs = sort_key (\<lambda>s. - int (s_count s)) xs"
  by (induction xs) (simp_all add: sort_by_def insert_by_insort)

lemma sorted_desc:
  "sorted_wrt (\<lambda>a b. s_count b \<le> s_count a) (sort_by by_count_desc xs)"
proof -
  have "sorted (map (\<lambda>s. - int (s_count s)) (sort_key (\<lambda>s. - int (s_count s)) xs))"
    by (rule sorted_sort_key)
  then show ?thesis
    by (simp add: sort_by_sort_key sorted_map)
qed

lemma count_list_insert_by: "count_list (insert_by cmp y xs) x = count_list (y # xs) x"
  by (induction xs) auto

lemma count_list_sort_by: "count_list (sort_by cmp xs) x = count_list xs x"
  by (induction xs) (simp_all add: sort_by_def count_list_insert_by)

lemma length_sort_by: "length (sort_by by_count_desc xs) = length xs"
  by (simp add: sort_by_sort_key)

text \<open>
  C7. The top-\<open>n\<close> list holds \<open>n\<close> records, or all of them when the map has fewer.
  Together with the records it leaves out, it is a rearrangement of the map's records
  whose counts never increase from one entry to the next, so no record left out has a
  higher count than a record of the list; and the records of any one count stand in
  the order in which the map holds them. These conditions leave one list only: the
  list is a function of the map and \<open>n\<close>.
\<close>

theorem ranking:
  "\<exists>rest.
     length (topCallSites (Some (int n)) m) = min n (length m) \<and>
     (\<forall>x. count_list (topCallSites (Some (int n)) m @ rest) x = count_list (map snd m) x) \<and>
     sorted_wrt (\<lambda>a b. s_count b \<le> s_count a) (topCallSites (Some (int n)) m @ rest) \<and>
     (\<forall>a \<in> set (topCallSites (Some (int n)) m). \<forall>b \<in> set rest. s_count b \<le> s_count a) \<and>
     (\<forall>c. filter (\<lambda>s. s_count s = c) (topCallSites (Some (int n)) m @ rest) =
          filter (\<lambda>s. s_count s = c) (map snd m))"
proof -
  let ?S = "sort_by by_count_desc (map snd m)"
  let ?tops = "topCallSites (Some (int n)) m"
  have t: "?tops = take n ?S"
    by (simp add: topCallSites_def slice0_def)
  have whole: "?tops @ drop n ?S = ?S"
    by (simp add: t)
  have len: "length ?tops = min n (length m)"
    by (simp add: t length_sort_by min.commute)
  have perm: "\<forall>x. count_list (?tops @ drop n ?S) x = count_list (map snd m) x"
    unfolding whole by (simp add: count_list_sort_by)
  have srt: "sorted_wrt (\<lambda>a b. s_count b \<le> s_count a) (?tops @ drop n ?S)"
    unfolding whole by (rule sorted_desc)
  have cut: "\<forall>a \<in> set ?tops. \<forall>b \<in> set (drop n ?S). s_count b \<le> s_count a"
    using srt by (simp add: sorted_wrt_append)
  have stab: "\<forall>c. filter (\<lambda>s. s_count s = c) (?tops @ drop n ?S) =
          filter (\<lambda>s. s_count s = c) (map snd m)"
  proof
    fix c
    show "filter (\<lambda>s. s_count s = c) (?tops @ drop n ?S) = filter (\<lambda>s. s_count s = c) (map snd m)"
      unfolding whole
      using sort_key_stable [of "\<lambda>s. - int (s_count s)" "- int c" "map snd m"]
      by (simp add: sort_by_sort_key)
  qed
  show ?thesis
    using len perm srt cut stab by blast
qed

text \<open>
  A map that is not in order: four call sites with the counts 1, 3, 2 and 3. The top
  three are the second and the fourth site, in this order, then the third.
\<close>

lemma ranking_sample:
  "map (\<lambda>s. (s_signature s, s_count s)) (map snd (record_all calls9 [])) =
     [(''a.js:1 (a)'', 1), (''b.js:1 (b)'', 3), (''c.js:1 (c)'', 2), (''d.js:1 (d)'', 3)] \<and>
   map (\<lambda>s. (s_signature s, s_count s)) (topCallSites (Some 3) (record_all calls9 [])) =
     [(''b.js:1 (b)'', 3), (''d.js:1 (d)'', 3), (''c.js:1 (c)'', 2)]"
  by code_simp

theorem ranking_witness:
  "length (topCallSites (Some 3) (record_all calls9 [])) = 3 \<and>
   map s_count (topCallSites (Some 3) (record_all calls9 [])) = [3, 3, 2]"
proof -
  have four: "length (record_all calls9 []) = 4"
    by code_simp
  have "length (topCallSites (Some (int 3)) (record_all calls9 [])) = min 3 (length (record_all calls9 []))"
    using ranking [of 3 "record_all calls9 []"] by blast
  then have l: "length (topCallSites (Some 3) (record_all calls9 [])) = 3"
    by (simp add: four)
  have c: "map s_count (topCallSites (Some 3) (record_all calls9 [])) = [3, 3, 2]"
    by code_simp
  show ?thesis using l c by simp
qed

subsection \<open>Signatures of ordinary stacks\<close>

text \<open>
  C1. On a stack as V8 prints it, every frame line starts with \<open>at\<close> and a space once
  it is trimmed, and the loop skips exactly those lines before it tries the pattern:
  the result is the sentinel although the second line has the shape
  \<open>at fn (path:line:col)\<close>; the pattern itself matches that line.
\<close>

theorem v8_frames_skipped:
  "extractCallSiteSignature (Some v8_stack) = ''<unknown call site>'' \<and>
   rx_exec location_rx (trim ''    at trackedSetTimeout (/x/profiler.js:194:16)'') =
     Some [(4, ''16''), (3, ''194''), (2, ''/x/profiler.js''), (1, ''trackedSetTimeout'')]"
  by code_simp

lemma at_lines_skipped:
  "\<forall>l \<in> set ls. trim l = [] \<or> startsWith (trim l) ''at '' \<Longrightarrow> scanSignature ls = None"
  by (induction ls) (simp_all add: Let_def)

subsection \<open>The duration option\<close>

text \<open>
  C3. A duration that is not a number is replaced by 2 before the validation reads it,
  so the validation accepts it: on an idle host the run goes on, records the profiler's
  own four calls through the wrappers, prints its report, and nothing goes to the
  error stream.
\<close>

theorem non_numeric_duration_accepted:
  "configure v_abc = Inr \<lparr>duration = Some 2, outputFormat = ''table'', topCount = Some 20\<rparr> \<and>
   o_status (main v_abc g0 env0) = None \<and>
   o_stderr (main v_abc g0 env0) = [] \<and>
   map_option r_totalCalls (o_report (main v_abc g0 env0)) = Some 4"
  by code_simp

text \<open>The validation of the duration cannot fail, whatever the options are.\<close>

lemma duration_never_rejected: "configure v \<noteq> Inl (1, [BadDuration])"
  by (auto simp add: configure_def Let_def isNaN_def less_than_def math_max_def or_else_def
        split: option.splits)

subsection \<open>The profiler's own timers\<close>

lemma record_keys:
  "map fst (recordTimerCall tp stack m) =
     (if has m (extractCallSiteSignature stack) then map fst m
      else map fst m @ [extractCallSiteSignature stack])"
  by (auto simp add: recordTimerCall_def Let_def)

lemma record_distinct:
  "distinct (map fst m) \<Longrightarrow> distinct (map fst (recordTimerCall tp stack m))"
  by (simp add: record_keys has_def)

lemma record_has: "has (recordTimerCall tp stack m) (extractCallSiteSignature stack)"
  by (simp add: has_def record_keys)

lemma record_has_mono: "has m k \<Longrightarrow> has (recordTimerCall tp stack m) k"
  by (simp add: has_def record_keys)

lemma bump_sum:
  "distinct (map fst m) \<Longrightarrow> k \<in> set (map fst m) \<Longrightarrow>
   count_sum (map (\<lambda>(k', st). if k' = k then (k', bump tp st) else (k', st)) m) = count_sum m + 1"
proof (induction m)
  case Nil
  then show ?case by simp
next
  case (Cons kv m)
  obtain k' st where kv: "kv = (k', st)" by (cases kv)
  show ?case
  proof (cases "k' = k")
    case True
    then have "k \<notin> set (map fst m)" using Cons.prems kv by simp
    then have "map (\<lambda>(k', st). if k' = k then (k', bump tp st) else (k', st)) m = m"
      by (rule bump_others)
    then show ?thesis using True kv by (simp add: count_sum_def bump_def)
  next
    case False
    then show ?thesis using Cons kv by (simp add: count_sum_def)
  qed
qed

lemma record_count_sum:
  "distinct (map fst m) \<Longrightarrow> count_sum (recordTimerCall tp stack m) = count_sum m + 1"
  using bump_sum [of m "extractCallSiteSignature stack" tp]
  by (simp add: recordTimerCall_def Let_def has_def) (simp add: count_sum_def)

lemma tracked_interval_ok:
  "trackedSetInterval stack delay (Inr h) w =
     (Inr h, w\<lparr>timerStats := recordTimerCall ''setInterval'' stack (timerStats w),
               native_calls := native_calls w @ [(originalSetInterval w, delay)],
               activeTimers := set_add h (activeTimers w)\<rparr>)"
  by (simp add: trackedSetInterval_def native_def Let_def)

lemma tracked_timeout_ok:
  "trackedSetTimeout stack delay (Inr h) w =
     (Inr h, w\<lparr>timerStats := recordTimerCall ''setTimeout'' stack (timerStats w),
               native_calls := native_calls w @ [(originalSetTimeout w, delay)],
               activeTimers := set_add h (activeTimers w)\<rparr>)"
  by (simp add: trackedSetTimeout_def native_def Let_def)

lemma set_add_set [simp]: "set (set_add x xs) = insert x (set xs)"
  by (auto simp add: set_add_def)



text \<open>
  On an idle host the report of a run shows these three calls and the \<open>setInterval\<close>
  of the delayed callback, and nothing else, under one signature.
\<close>

lemma idle_report:
  "map_option r_totalCalls (o_report (main v0 g0 env0)) = Some 4 \<and>
   map_option r_activeTimers (o_report (main v0 g0 env0)) = Some 4"
  by code_simp

lemma idle_report_rows:
  "map_option (\<lambda>r. map (\<lambda>s. (s_signature s, s_count s, s_type s, s_caller s)) (r_top r))
     (o_report (main v0 g0 env0)) =
   Some [(''<unknown call site>'', 4, ''setInterval'', ''runProfiler (profiler.js:384)'')]"
  by code_simp

subsection \<open>Rounding\<close>

lemma bits_bounds: "0 < n \<Longrightarrow> 2 ^ (bits n - 1) \<le> n \<and> n < 2 ^ bits n"
proof (induction n rule: bits.induct)
  case (1 n)
  show ?case
  proof (cases "n = 1")
    case True
    then show ?thesis by (simp add: bits.simps [of 1] bits.simps [of 0])
  next
    case False
    then have h: "0 < n div 2" using "1.prems" by linarith
    have ih: "2 ^ (bits (n div 2) - 1) \<le> n div 2 \<and> n div 2 < 2 ^ bits (n div 2)"
      using "1.IH" h "1.prems" by simp
    have b: "bits n = Suc (bits (n div 2))"
      using "1.prems" by (simp add: bits.simps [of n])
    have pos: "0 < bits (n div 2)"
      using h by (simp add: bits.simps [of "n div 2"])
    then obtain k where k: "bits (n div 2) = Suc k" by (cases "bits (n div 2)") auto
    have lo: "(2::int) ^ Suc k \<le> n"
    proof -
      have "(2::int) ^ k \<le> n div 2" using ih k by simp
      then have "2 * (2::int) ^ k \<le> 2 * (n div 2)" by simp
      also have "\<dots> \<le> n" by linarith
      finally show ?thesis by simp
    qed
    have hi: "n < 2 ^ Suc (Suc k)"
    proof -
      have "n div 2 + 1 \<le> 2 ^ Suc k" using ih k by simp
      then have "2 * (n div 2) + 2 \<le> 2 * 2 ^ Suc k" by linarith
      moreover have "n < 2 * (n div 2) + 2" by linarith
      ultimately show ?thesis by simp
    qed
    show ?thesis using lo hi b k by simp
  qed
qed

lemma pow2_split: "(2::real) ^ nat e / 2 ^ nat (- e) = 2 powr (real_of_int e)"
proof (cases "0 \<le> e")
  case True
  then have "(2::real) powr (real_of_int e) = 2 powr (real (nat e))" by simp
  also have "\<dots> = 2 ^ nat e" by (simp only: powr_realpow zero_less_numeral)
  finally show ?thesis using True by simp
next
  case False
  then have "(2::real) powr (real_of_int e) = 2 powr (- real (nat (- e)))" by simp
  also have "\<dots> = 1 / 2 ^ nat (- e)"
    by (simp only: powr_minus powr_realpow zero_less_numeral) (simp add: field_simps)
  finally show ?thesis using False by simp
qed

lemma round_half_even_near:
  assumes "0 < b"
  shows "\<bar>real_of_int (round_half_even a b) - real_of_int a / real_of_int b\<bar> \<le> 1 / 2"
proof -
  define n where "n = a div b"
  define r where "r = a mod b"
  have a: "a = b * n + r" by (simp add: n_def r_def)
  have r: "0 \<le> r" "r < b" using assms by (simp_all add: r_def)
  have q: "real_of_int a / real_of_int b = real_of_int n + real_of_int r / real_of_int b"
    using assms by (simp add: a field_simps)
  have f: "0 \<le> real_of_int r / real_of_int b" "real_of_int r / real_of_int b < 1"
    using r assms by simp_all
  consider "2 * r < b" | "b < 2 * r" | "2 * r = b" by linarith
  then show ?thesis
  proof cases
    case 1
    then have "real_of_int r / real_of_int b < 1 / 2" using assms by (simp add: field_simps)
    moreover have "round_half_even a b = n" using 1 by (simp add: round_half_even_def n_def r_def Let_def)
    ultimately show ?thesis using q f by simp
  next
    case 2
    then have "1 / 2 < real_of_int r / real_of_int b" using assms by (simp add: field_simps)
    moreover have "round_half_even a b = n + 1" using 2 by (simp add: round_half_even_def n_def r_def Let_def)
    ultimately show ?thesis using q f by simp
  next
    case 3
    then have "real_of_int r / real_of_int b = 1 / 2" using assms by (simp add: field_simps)
    moreover have "round_half_even a b = n \<or> round_half_even a b = n + 1"
      using 3 by (simp add: round_half_even_def n_def r_def Let_def)
    ultimately show ?thesis using q by auto
  qed
qed

lemma round_half_even_nonneg: "0 \<le> a \<Longrightarrow> 0 < b \<Longrightarrow> 0 \<le> round_half_even a b"
  by (simp add: round_half_even_def Let_def pos_imp_zdiv_nonneg_iff)

lemma floor_log2_lower:
  assumes "0 < p" and "0 < q"
  shows "2 powr (real_of_int (floor_log2 p q)) \<le> real_of_int p / real_of_int q"
proof -
  define d where "d = int (bits p) - int (bits q)"
  have bp: "2 ^ (bits p - 1) \<le> p" and bq: "q < 2 ^ bits q"
    using bits_bounds assms by simp_all
  have bpos: "0 < bits p" using assms(1) by (simp add: bits.simps [of p])
  have rp: "2 powr (real (bits p) - 1) \<le> real_of_int p"
  proof -
    have "(2::real) powr (real (bits p) - 1) = 2 powr (real (bits p - 1))"
      using bpos by (simp add: of_nat_diff)
    also have "\<dots> = 2 ^ (bits p - 1)" by (simp only: powr_realpow zero_less_numeral)
    also have "\<dots> = real_of_int (2 ^ (bits p - 1))" by simp
    also have "\<dots> \<le> real_of_int p" using bp by (simp only: of_int_le_iff)
    finally show ?thesis .
  qed
  have rq: "real_of_int q < 2 powr (real (bits q))"
  proof -
    have "real_of_int q < real_of_int (2 ^ bits q)" using bq by (simp only: of_int_less_iff)
    also have "\<dots> = 2 ^ bits q" by simp
    also have "\<dots> = (2::real) powr (real (bits q))" by (simp only: powr_realpow zero_less_numeral)
    finally show ?thesis .
  qed
  have low: "2 powr (real_of_int (d - 1)) \<le> real_of_int p / real_of_int q"
  proof -
    have "2 powr (real_of_int (d - 1)) * real_of_int q \<le> 2 powr (real_of_int (d - 1)) * 2 powr (real (bits q))"
      using rq by simp
    also have "\<dots> = 2 powr (real (bits p) - 1)"
      by (simp add: d_def powr_add [symmetric])
    also have "\<dots> \<le> real_of_int p" by (rule rp)
    finally show ?thesis using assms(2) by (simp add: field_simps)
  qed
  show ?thesis
  proof (cases "q * 2 ^ nat d \<le> p * 2 ^ nat (- d)")
    case True
    then have "real_of_int (q * 2 ^ nat d) \<le> real_of_int (p * 2 ^ nat (- d))"
      by (simp only: of_int_le_iff)
    then have "real_of_int q * 2 ^ nat d \<le> real_of_int p * 2 ^ nat (- d)" by simp
    then have "2 ^ nat d / 2 ^ nat (- d) \<le> real_of_int p / real_of_int q"
      using assms(2) by (simp add: field_simps)
    then have "2 powr (real_of_int d) \<le> real_of_int p / real_of_int q"
      by (simp only: pow2_split)
    moreover have "floor_log2 p q = d" using True by (simp add: floor_log2_def d_def Let_def)
    ultimately show ?thesis by simp
  next
    case False
    then have "floor_log2 p q = d - 1" by (simp add: floor_log2_def d_def Let_def)
    then show ?thesis using low by simp
  qed
qed

lemma round_double_near:
  assumes "0 < p" and "0 < q"
  shows "\<exists>a b. round_double p q = Finite a b \<and> 0 \<le> a \<and> 0 < b \<and>
           \<bar>real_of_int a / real_of_int b - real_of_int p / real_of_int q\<bar>
             \<le> (real_of_int p / real_of_int q) / 2 ^ 53"
proof -
  define e where "e = floor_log2 p q - 52"
  define a' where "a' = p * 2 ^ nat (- e)"
  define b' where "b' = q * 2 ^ nat e"
  define m where "m = round_half_even a' b'"
  define T where "T = (2::real) powr (real_of_int e)"
  define X where "X = real_of_int p / real_of_int q"
  have rd: "round_double p q = Finite (m * 2 ^ nat e) (2 ^ nat (- e))"
    by (simp add: round_double_def Let_def e_def m_def a'_def b'_def)
  have b'pos: "0 < b'" using assms(2) by (simp add: b'_def)
  have a'pos: "0 \<le> a'" using assms(1) by (simp add: a'_def)
  have mpos: "0 \<le> m" unfolding m_def using a'pos b'pos by (rule round_half_even_nonneg)
  have Tpos: "0 < T" by (simp add: T_def)
  have Xpos: "0 < X" using assms by (simp add: X_def)
  have Tsplit: "2 ^ nat e / 2 ^ nat (- e) = T" by (simp only: T_def pow2_split)
  have val: "real_of_int (m * 2 ^ nat e) / real_of_int (2 ^ nat (- e)) = real_of_int m * T"
  proof -
    have "real_of_int (m * 2 ^ nat e) / real_of_int (2 ^ nat (- e)) =
            real_of_int m * (2 ^ nat e / 2 ^ nat (- e))"
      by simp
    then show ?thesis by (simp only: Tsplit)
  qed
  have ab: "real_of_int a' / real_of_int b' = X / T"
  proof -
    have "real_of_int a' / real_of_int b' = X * (2 ^ nat (- e) / 2 ^ nat e)"
      by (simp add: a'_def b'_def X_def)
    also have "2 ^ nat (- e) / 2 ^ nat e = 1 / T"
      using Tsplit by (simp add: field_simps)
    finally show ?thesis by simp
  qed
  have near: "\<bar>real_of_int m - X / T\<bar> \<le> 1 / 2"
    using round_half_even_near [OF b'pos, of a'] by (simp add: m_def ab)
  have "\<bar>real_of_int m * T - X\<bar> = T * \<bar>real_of_int m - X / T\<bar>"
  proof -
    have "real_of_int m * T - X = T * (real_of_int m - X / T)"
      using Tpos by (simp add: field_simps)
    then show ?thesis using Tpos by (simp add: abs_mult)
  qed
  also have "\<dots> \<le> T * (1 / 2)"
    using near Tpos by (simp only: mult_le_cancel_left_pos)
  finally have err: "\<bar>real_of_int m * T - X\<bar> \<le> T / 2" by simp
  have "T = 2 powr (real_of_int (floor_log2 p q)) * 2 powr (- 52)"
    by (simp add: T_def e_def powr_add [symmetric])
  also have "(2::real) powr (- 52) = 1 / 2 ^ 52"
    using powr_minus [of "2::real" 52] powr_realpow [of "2::real" 52] by (simp add: field_simps)
  finally have "T = 2 powr (real_of_int (floor_log2 p q)) / 2 ^ 52" by simp
  also have "\<dots> \<le> X / 2 ^ 52"
    using floor_log2_lower [OF assms] by (simp add: X_def divide_right_mono)
  finally have "T / 2 \<le> X / 2 ^ 53" by simp
  then have "\<bar>real_of_int m * T - X\<bar> \<le> X / 2 ^ 53" using err by linarith
  then show ?thesis
    using rd val mpos by (simp add: X_def)
qed

lemma percent_near:
  assumes "1 \<le> c" and "c \<le> t"
  shows "\<exists>a b. percent c t = Finite a b \<and> 0 \<le> a \<and> 0 < b \<and>
           \<bar>real_of_int a / real_of_int b - 100 * real c / real t\<bar> \<le> 1 / 2 ^ 45"
proof -
  define X where "X = real c / real t"
  define u where "u = (1::real) / 2 ^ 53"
  have X: "0 < X" "X \<le> 1" using assms by (simp_all add: X_def)
  have u: "0 < u" "u \<le> 1" by (simp_all add: u_def)
  have "\<exists>a b. round_double (int c) (int t) = Finite a b \<and> 0 \<le> a \<and> 0 < b \<and>
           \<bar>real_of_int a / real_of_int b - real_of_int (int c) / real_of_int (int t)\<bar>
             \<le> (real_of_int (int c) / real_of_int (int t)) / 2 ^ 53"
    by (rule round_double_near) (use assms in simp_all)
  then obtain a1 b1 where d: "round_double (int c) (int t) = Finite a1 b1" and a1: "0 \<le> a1"
    and b1: "0 < b1"
    and e1': "\<bar>real_of_int a1 / real_of_int b1 - real_of_int (int c) / real_of_int (int t)\<bar>
             \<le> (real_of_int (int c) / real_of_int (int t)) / 2 ^ 53"
    by blast
  have e1: "\<bar>real_of_int a1 / real_of_int b1 - X\<bar> \<le> X * u"
    using e1' by (simp add: X_def u_def)
  define Y where "Y = real_of_int a1 / real_of_int b1"
  have Y: "X * (1 - u) \<le> Y" "Y \<le> X * (1 + u)"
    using e1 by (simp_all add: Y_def abs_le_iff algebra_simps)
  have "0 < X * (1 - u)" using X by (simp add: u_def)
  then have Ypos: "0 < Y" using Y(1) by linarith
  then have a1pos: "0 < a1" using b1 a1 by (cases "a1 = 0") (simp_all add: Y_def)
  have div: "js_div c t = Finite a1 b1"
    using assms d by (simp add: js_div_def)
  have mul: "percent c t = round_double (a1 * 100) b1"
    using a1pos by (simp add: percent_def div js_mul_def)
  have "\<exists>a b. round_double (a1 * 100) b1 = Finite a b \<and> 0 \<le> a \<and> 0 < b \<and>
           \<bar>real_of_int a / real_of_int b - real_of_int (a1 * 100) / real_of_int b1\<bar>
             \<le> (real_of_int (a1 * 100) / real_of_int b1) / 2 ^ 53"
    by (rule round_double_near) (use a1pos b1 in simp_all)
  then obtain a b where r: "round_double (a1 * 100) b1 = Finite a b" and a: "0 \<le> a" and b: "0 < b"
    and e2': "\<bar>real_of_int a / real_of_int b - real_of_int (a1 * 100) / real_of_int b1\<bar>
             \<le> (real_of_int (a1 * 100) / real_of_int b1) / 2 ^ 53"
    by blast
  have conv: "real_of_int (a1 * 100) / real_of_int b1 = 100 * Y" by (simp add: Y_def)
  have e2: "\<bar>real_of_int a / real_of_int b - 100 * Y\<bar> \<le> 100 * Y * u"
    using e2' unfolding conv by (simp add: u_def)
  define Z where "Z = real_of_int a / real_of_int b"
  have t1: "\<bar>Z - 100 * Y\<bar> \<le> 100 * Y * u" using e2 by (simp add: Z_def)
  have t2: "\<bar>Y - X\<bar> \<le> X * u" using e1 by (simp add: Y_def)
  have "\<bar>Z - 100 * X\<bar> \<le> 100 * Y * u + 100 * (X * u)"
    using t1 t2 by linarith
  also have "\<dots> \<le> 100 * (X * (1 + u)) * u + 100 * (X * u)"
    using Y(2) u(1) by (simp add: mult_right_mono)
  also have "\<dots> = X * (100 * u * (2 + u))" by (simp add: algebra_simps)
  also have "\<dots> \<le> 1 * (100 * u * (2 + u))"
    using X u by (intro mult_right_mono) simp_all
  also have "\<dots> \<le> 256 * u"
    using u by (simp add: algebra_simps) (simp add: u_def)
  also have "\<dots> = 1 / 2 ^ 45" by (simp add: u_def)
  finally have "\<bar>Z - 100 * X\<bar> \<le> 1 / 2 ^ 45" .
  then show ?thesis using mul r a b by (simp add: X_def Z_def)
qed

lemma fixed_units_near:
  assumes "0 \<le> a" and "0 < b"
  shows "\<bar>real_of_int (fixed_units d (Finite a b)) - real_of_int a / real_of_int b * 10 ^ d\<bar> \<le> 1 / 2"
proof -
  define z where "z = real_of_int a / real_of_int b * 10 ^ d"
  have "real_of_int (2 * a * 10 ^ d + b) / real_of_int (2 * b) = z + 1 / 2"
    using assms(2) by (simp add: z_def field_simps)
  then have "\<lfloor>real_of_int (2 * a * 10 ^ d + b) / real_of_int (2 * b)\<rfloor> = \<lfloor>z + 1 / 2\<rfloor>"
    by (simp only:)
  then have "(2 * a * 10 ^ d + b) div (2 * b) = \<lfloor>z + 1 / 2\<rfloor>"
    by (simp only: floor_divide_of_int_eq)
  then have "fixed_units d (Finite a b) = \<lfloor>z + 1 / 2\<rfloor>"
    by (simp add: fixed_units_def)
  then show ?thesis unfolding z_def [symmetric] by linarith
qed

subsection \<open>Percentages\<close>

lemma record_counts_positive:
  "\<forall>kv \<in> set m. 1 \<le> s_count (snd kv) \<Longrightarrow>
   \<forall>kv \<in> set (recordTimerCall tp stack m). 1 \<le> s_count (snd kv)"
  by (auto simp add: recordTimerCall_def Let_def bump_def)

lemma record_all_counts_positive:
  "\<forall>kv \<in> set m. 1 \<le> s_count (snd kv) \<Longrightarrow>
   \<forall>kv \<in> set (record_all cs m). 1 \<le> s_count (snd kv)"
proof (induction cs arbitrary: m)
  case Nil
  then show ?case by (simp add: record_all_def)
next
  case (Cons c cs)
  have "\<forall>kv \<in> set (recordTimerCall (fst c) (snd c) m). 1 \<le> s_count (snd kv)"
    using Cons.prems by (rule record_counts_positive)
  then have "\<forall>kv \<in> set (record_all cs (recordTimerCall (fst c) (snd c) m)). 1 \<le> s_count (snd kv)"
    by (rule Cons.IH)
  then show ?case by (simp add: record_all_def)
qed

lemma set_insert_by: "set (insert_by cmp x ys) = insert x (set ys)"
  by (induction ys) auto

lemma set_sort_by: "set (sort_by cmp xs) = set xs"
  by (induction xs) (simp_all add: sort_by_def set_insert_by)

lemma set_slice0: "set (slice0 n xs) \<subseteq> set xs"
  by (cases n) (auto simp add: slice0_def dest: in_set_takeD)

lemma set_topCallSites: "set (topCallSites n m) \<subseteq> snd ` set m"
  using set_slice0 [of n "sort_by by_count_desc (map snd m)"]
  by (simp add: topCallSites_def set_sort_by)

lemma foldl_counts: "foldl (\<lambda>sum s. sum + s_count s) k xs = k + sum_list (map s_count xs)"
  by (induction xs arbitrary: k) simp_all

lemma totalCalls_sum: "totalCalls xs = sum_list (map s_count xs)"
  by (simp add: totalCalls_def foldl_counts)

lemma count_le_total: "s \<in> set xs \<Longrightarrow> s_count s \<le> totalCalls xs"
  by (simp add: totalCalls_sum member_le_sum_list)

lemma take_total: "sum_list (map s_count (take k xs)) \<le> totalCalls xs"
proof -
  have "sum_list (map s_count xs) =
          sum_list (map s_count (take k xs)) + sum_list (map s_count (drop k xs))"
    by (metis append_take_drop_id map_append sum_list_append)
  then show ?thesis by (simp add: totalCalls_sum)
qed

lemma sum_list_bound:
  fixes f g :: "'a \<Rightarrow> real"
  shows "\<forall>x \<in> set xs. f x \<le> g x + eps \<Longrightarrow>
         sum_list (map f xs) \<le> sum_list (map g xs) + real (length xs) * eps"
  by (induction xs) (auto simp add: algebra_simps)

lemma sum_list_share:
  "sum_list (map (\<lambda>s. 100 * real (s_count s) / real t) xs) =
     100 * real (sum_list (map s_count xs)) / real t"
  by (induction xs) (simp_all add: add_divide_distrib distrib_left)

lemma shown_near:
  assumes "1 \<le> c" and "c \<le> t"
  shows "\<bar>shown d c t - 100 * real c / real t\<bar> \<le> 1 / (2 * 10 ^ d) + 1 / 2 ^ 45"
proof -
  obtain a b where p: "percent c t = Finite a b" and a: "0 \<le> a" and b: "0 < b"
    and e: "\<bar>real_of_int a / real_of_int b - 100 * real c / real t\<bar> \<le> 1 / 2 ^ 45"
    using percent_near [OF assms] by blast
  define z where "z = real_of_int a / real_of_int b"
  define n where "n = real_of_int (fixed_units d (Finite a b))"
  have "\<bar>n - z * 10 ^ d\<bar> \<le> 1 / 2"
    using fixed_units_near [OF a b, of d] by (simp add: n_def z_def)
  then have "\<bar>n - z * 10 ^ d\<bar> / 10 ^ d \<le> (1 / 2) / 10 ^ d"
    by (rule divide_right_mono) simp
  moreover have "\<bar>n - z * 10 ^ d\<bar> / 10 ^ d = \<bar>n / 10 ^ d - z\<bar>"
  proof -
    have "n / 10 ^ d - z = (n - z * 10 ^ d) / 10 ^ d" by (simp add: field_simps)
    then show ?thesis by (simp add: abs_divide)
  qed
  ultimately have "\<bar>n / 10 ^ d - z\<bar> \<le> 1 / (2 * 10 ^ d)" by simp
  moreover have "\<bar>z - 100 * real c / real t\<bar> \<le> 1 / 2 ^ 45" using e by (simp add: z_def)
  ultimately have "\<bar>n / 10 ^ d - 100 * real c / real t\<bar> \<le> 1 / (2 * 10 ^ d) + 1 / 2 ^ 45"
    by linarith
  then show ?thesis by (simp add: shown_def p n_def)
qed

lemma sig7: "map (\<lambda>s. (s_signature s, s_count s)) (topCallSites (Some 20) (record_all calls7 [])) =
    [(''a.js:1 (a)'', 2), (''b.js:1 (b)'', 2), (''c.js:1 (c)'', 2), (''d.js:1 (d)'', 1)]"
  by code_simp

lemma counts7: "map s_count (topCallSites (Some 20) (record_all calls7 [])) = [2, 2, 2, 1]"
  by code_simp

lemma total7: "totalCalls (topCallSites (Some 20) (record_all calls7 [])) = 7"
  by (simp add: totalCalls_sum counts7)

lemma div_2_7: "round_double 2 7 = Finite 5146971002709138 18014398509481984"
  by (simp add: round_double_def floor_log2_def round_half_even_def bits.simps Let_def)

lemma mul_2_7: "round_double 514697100270913800 18014398509481984 = Finite 8042142191733028 281474976710656"
  by (simp add: round_double_def floor_log2_def round_half_even_def bits.simps Let_def)

lemma percent_2_7: "percent 2 7 = Finite 8042142191733028 281474976710656"
  by (simp add: percent_def js_div_def js_mul_def div_2_7 mul_2_7)

lemma div_1_7: "round_double 1 7 = Finite 5146971002709138 36028797018963968"
  by (simp add: round_double_def floor_log2_def round_half_even_def bits.simps Let_def)

lemma mul_1_7: "round_double 514697100270913800 36028797018963968 = Finite 8042142191733028 562949953421312"
  by (simp add: round_double_def floor_log2_def round_half_even_def bits.simps Let_def)

lemma percent_1_7: "percent (Suc 0) 7 = Finite 8042142191733028 562949953421312"
  by (simp add: percent_def js_div_def js_mul_def div_1_7 mul_1_7)

lemma units_2_7: "fixed_units (Suc 0) (percent 2 7) = 286"
  by (simp add: percent_2_7 fixed_units_def)

lemma units_1_7: "fixed_units (Suc 0) (percent (Suc 0) 7) = 143"
  by (simp add: percent_1_7 fixed_units_def)

lemma show_286: "show_int 28 = ''28''" "show_int 6 = ''6''" "show_int 14 = ''14''" "show_int 3 = ''3''"
  by (simp_all add: show_int.simps)

lemma percentage_2_7: "percentage (Suc 0) 2 7 = ''28.6''"
  by (simp add: percentage_def toFixed_def percent_2_7 units_2_7 [unfolded percent_2_7] show_286 Let_def)

lemma percentage_1_7: "percentage (Suc 0) (Suc 0) 7 = ''14.3''"
  by (simp add: percentage_def toFixed_def percent_1_7 units_1_7 [unfolded percent_1_7] show_286 Let_def)

lemma map_counts: "map (\<lambda>site. f (s_count site)) xs = map f (map s_count xs)"
  by simp

text \<open>
  The sum as the specification states it (at most 100 per cent) fails. Seven calls
  from four call sites give the counts 2, 2, 2 and 1; the table shows 28.6, 28.6, 28.6
  and 14.3 per cent, which add up to 100.1.
\<close>

theorem rounded_percentages_exceed_100:
  "table_percentages (topCallSites (Some 20) (record_all calls7 [])) =
     [''28.6'', ''28.6'', ''28.6'', ''14.3''] \<and>
   sum_list (map (\<lambda>site. shown 1 (s_count site) (totalCalls (topCallSites (Some 20) (record_all calls7 []))))
               (take 5 (topCallSites (Some 20) (record_all calls7 [])))) > 100"
proof -
  let ?tops = "topCallSites (Some 20) (record_all calls7 [])"
  have a: "table_percentages ?tops = map (\<lambda>c. percentage 1 c 7) (take 5 (map s_count ?tops))"
    by (simp add: table_percentages_def total7 take_map)
  have b: "map (\<lambda>site. shown 1 (s_count site) (totalCalls ?tops)) (take 5 ?tops) =
           map (\<lambda>c. shown 1 c 7) (take 5 (map s_count ?tops))"
    by (simp add: total7 take_map)
  show ?thesis
    unfolding a b counts7
    by (simp add: percentage_2_7 percentage_1_7 shown_def units_2_7 units_1_7)
qed

lemma share_le_100: "s \<le> t \<Longrightarrow> 100 * real s / real t \<le> 100"
  by (cases "t = 0") (simp_all add: field_simps)

lemma topCallSites_empty: "topCallSites n [] = []"
  by (cases n) (simp_all add: topCallSites_def slice0_def sort_by_def)

text \<open>
  C8, as the code has it. For the map of any sequence of recorded calls, every entry
  of the top list has a count of at least one and at most the displayed total, so its
  percentage is a finite number (neither \<open>NaN\<close> nor \<open>Infinity\<close>), and the number shown
  with \<open>d\<close> decimals differs from \<open>count / total * 100\<close> by at most half a unit of the
  last decimal plus the error of the two double-precision operations, \<open>2^-45\<close>. The
  numbers shown for the first \<open>k\<close> entries add up to at most 100 plus that bound for
  each of them. When no call was recorded the top list and both percentage lists are
  empty and the total is zero: nothing is divided, and no percentage is shown.
\<close>

theorem percentages_of_a_run:
  "(\<forall>site \<in> set (topCallSites n (record_all cs [])).
      1 \<le> s_count site \<and>
      s_count site \<le> totalCalls (topCallSites n (record_all cs [])) \<and>
      (\<exists>a b. percent (s_count site) (totalCalls (topCallSites n (record_all cs []))) = Finite a b
             \<and> 0 < b) \<and>
      \<bar>shown d (s_count site) (totalCalls (topCallSites n (record_all cs [])))
         - 100 * real (s_count site) / real (totalCalls (topCallSites n (record_all cs [])))\<bar>
        \<le> 1 / (2 * 10 ^ d) + 1 / 2 ^ 45) \<and>
   sum_list (map (\<lambda>site. shown d (s_count site) (totalCalls (topCallSites n (record_all cs []))))
                 (take k (topCallSites n (record_all cs []))))
     \<le> 100 + real (length (take k (topCallSites n (record_all cs [])))) * (1 / (2 * 10 ^ d) + 1 / 2 ^ 45) \<and>
   (cs = [] \<longrightarrow>
      topCallSites n (record_all cs []) = [] \<and>
      totalCalls (topCallSites n (record_all cs [])) = 0 \<and>
      table_percentages (topCallSites n (record_all cs [])) = [] \<and>
      json_percentages (topCallSites n (record_all cs [])) = [])"
proof -
  let ?tops = "topCallSites n (record_all cs [])"
  let ?T = "totalCalls ?tops"
  let ?eps = "1 / (2 * 10 ^ d) + 1 / 2 ^ (45::nat) :: real"
  have pos: "\<forall>kv \<in> set (record_all cs []). 1 \<le> s_count (snd kv)"
    by (rule record_all_counts_positive) simp
  have each: "1 \<le> s_count site \<and> s_count site \<le> ?T \<and>
      (\<exists>a b. percent (s_count site) ?T = Finite a b \<and> 0 < b) \<and>
      \<bar>shown d (s_count site) ?T - 100 * real (s_count site) / real ?T\<bar> \<le> ?eps"
    if "site \<in> set ?tops" for site
  proof -
    have "site \<in> snd ` set (record_all cs [])" using that set_topCallSites by blast
    then have c1: "1 \<le> s_count site" using pos by auto
    have c2: "s_count site \<le> ?T" using that by (rule count_le_total)
    have c3: "\<exists>a b. percent (s_count site) ?T = Finite a b \<and> 0 < b"
      using percent_near [OF c1 c2] by blast
    have c4: "\<bar>shown d (s_count site) ?T - 100 * real (s_count site) / real ?T\<bar> \<le> ?eps"
      using c1 c2 by (rule shown_near)
    show ?thesis using c1 c2 c3 c4 by blast
  qed
  have A: "\<forall>site \<in> set ?tops. 1 \<le> s_count site \<and> s_count site \<le> ?T \<and>
      (\<exists>a b. percent (s_count site) ?T = Finite a b \<and> 0 < b) \<and>
      \<bar>shown d (s_count site) ?T - 100 * real (s_count site) / real ?T\<bar> \<le> ?eps"
    using each by blast
  have B: "sum_list (map (\<lambda>site. shown d (s_count site) ?T) (take k ?tops))
             \<le> 100 + real (length (take k ?tops)) * ?eps"
  proof -
    have "\<forall>site \<in> set (take k ?tops).
            shown d (s_count site) ?T \<le> 100 * real (s_count site) / real ?T + ?eps"
    proof
      fix site assume "site \<in> set (take k ?tops)"
      then have "site \<in> set ?tops" by (rule in_set_takeD)
      then have "\<bar>shown d (s_count site) ?T - 100 * real (s_count site) / real ?T\<bar> \<le> ?eps"
        using each by blast
      then show "shown d (s_count site) ?T \<le> 100 * real (s_count site) / real ?T + ?eps"
        by linarith
    qed
    then have "sum_list (map (\<lambda>site. shown d (s_count site) ?T) (take k ?tops))
        \<le> sum_list (map (\<lambda>site. 100 * real (s_count site) / real ?T) (take k ?tops))
            + real (length (take k ?tops)) * ?eps"
      by (rule sum_list_bound)
    also have "sum_list (map (\<lambda>site. 100 * real (s_count site) / real ?T) (take k ?tops))
        = 100 * real (sum_list (map s_count (take k ?tops))) / real ?T"
      by (rule sum_list_share)
    also have "\<dots> \<le> 100"
      using take_total [of k ?tops] by (rule share_le_100)
    finally show ?thesis by simp
  qed
  have C: "cs = [] \<longrightarrow> ?tops = [] \<and> ?T = 0 \<and> table_percentages ?tops = [] \<and>
      json_percentages ?tops = []"
    by (simp add: record_all_def topCallSites_empty totalCalls_def table_percentages_def
        json_percentages_def)
  show ?thesis using A B C by blast
qed

theorem percentages_of_a_run_witness:
  "\<bar>shown 1 2 7 - 100 * 2 / 7\<bar> \<le> 1 / (2 * 10 ^ 1) + 1 / 2 ^ 45 \<and>
   topCallSites (Some 20) (record_all [] []) = []"
proof -
  let ?tops = "topCallSites (Some 20) (record_all calls7 [])"
  have ne: "?tops \<noteq> []" using counts7 by auto
  then have mem: "hd ?tops \<in> set ?tops" by simp
  have "s_count (hd ?tops) = hd (map s_count ?tops)" using ne by (simp add: hd_map)
  then have c: "s_count (hd ?tops) = 2" by (simp add: counts7)
  have "\<bar>shown 1 (s_count (hd ?tops)) (totalCalls ?tops)
         - 100 * real (s_count (hd ?tops)) / real (totalCalls ?tops)\<bar>
        \<le> 1 / (2 * 10 ^ 1) + 1 / 2 ^ 45"
    using percentages_of_a_run [of "Some 20" calls7 1 5] mem by blast
  then have w1: "\<bar>shown 1 2 7 - 100 * 2 / 7\<bar> \<le> 1 / (2 * 10 ^ 1) + 1 / 2 ^ 45"
    by (simp add: c total7)
  have w2: "topCallSites (Some 20) (record_all [] []) = []"
    using percentages_of_a_run [of "Some 20" "[]" 1 5] by blast
  show ?thesis using w1 w2 by blast
qed

subsection \<open>The console snippet\<close>

lemma split_on_nonempty: "split_on c s \<noteq> []"
  by (induction s) (auto split: list.splits)

lemma no_match_empty: "rx_exec location_rx [] = None"
  by code_simp

lemma same_format:
  assumes "pop (split_on CHR ''/'' (grp m 2)) \<noteq> Some []"
  shows "signature_of m = site_of m"
proof -
  obtain b where b: "pop (split_on CHR ''/'' (grp m 2)) = Some b"
    using split_on_nonempty [of "CHR ''/''" "grp m 2"] by (simp add: pop_def)
  then have "b \<noteq> []" using assms by simp
  then show ?thesis
    using b by (simp add: signature_of_def site_of_def basename_def Let_def split: option.splits)
qed

lemma scans_agree: "\<forall>l \<in> set ls. plain_line l \<Longrightarrow> scanSignature ls = scanSite ls"
proof (induction ls)
  case Nil
  then show ?case by simp
next
  case (Cons l ls)
  have p: "plain_line l" and ih: "scanSignature ls = scanSite ls"
    using Cons by simp_all
  show ?case
  proof (cases "trim l = []")
    case True
    then show ?thesis using ih by (simp add: Let_def no_match_empty del: rx_exec.simps)
  next
    case False
    have ns: "\<not> startsWith (trim l) ''at ''" using p by (simp add: plain_line_def)
    show ?thesis
    proof (cases "rx_exec location_rx (trim l)")
      case None
      then show ?thesis using ih ns False by (simp add: Let_def)
    next
      case (Some m)
      then have "pop (split_on CHR ''/'' (grp m 2)) \<noteq> Some []"
        using p by (simp add: plain_line_def)
      then have "signature_of m = site_of m" by (rule same_format)
      then show ?thesis using Some ns False by (simp add: Let_def)
    qed
  qed
qed

text \<open>
  C9, as the code has it. On an absent stack both extraction functions return
  \<open><unknown>\<close>. On a stack none of whose lines after the first starts with \<open>at\<close> and a
  space once trimmed, and none of whose matched paths ends in a slash, both take the
  result from the same line and return the same signature; when no line matches, the
  console snippet returns \<open><unknown>\<close> and the profiler \<open><unknown call site>\<close>
  (\<open><unknown>\<close> on the empty stack).
\<close>

theorem extraction_agreement:
  assumes "\<forall>l \<in> set (drop 1 (split_on CHR 0x0A s)). plain_line l"
  shows "extractCallSite None = extractCallSiteSignature None \<and>
    (case scanSite (drop 1 (split_on CHR 0x0A s)) of
       Some site \<Rightarrow>
         extractCallSite (Some s) = site \<and> extractCallSiteSignature (Some s) = site
     | None \<Rightarrow>
         extractCallSite (Some s) = ''<unknown>'' \<and>
         extractCallSiteSignature (Some s) =
           (if s = [] then ''<unknown>'' else ''<unknown call site>''))"
proof -
  have eq: "scanSignature (drop 1 (split_on CHR 0x0A s)) = scanSite (drop 1 (split_on CHR 0x0A s))"
    using assms by (rule scans_agree)
  have e: "s = [] \<Longrightarrow> scanSite (drop 1 (split_on CHR 0x0A s)) = None"
    by simp
  show ?thesis
    using eq e
    by (cases "s = []")
      (simp_all add: extractCallSite_def extractCallSiteSignature_def split: option.splits)
qed

lemma odd_lines: "drop 1 (split_on CHR 0x0A odd_stack) = [''  called at poll (/app/src/poller.js:42:3)'']"
  by code_simp

lemma odd_plain: "plain_line ''  called at poll (/app/src/poller.js:42:3)''"
  by code_simp

lemma odd_site: "scanSite [''  called at poll (/app/src/poller.js:42:3)''] = Some ''poller.js:42 (poll)''"
  by code_simp

theorem extraction_agreement_witness:
  "extractCallSite (Some odd_stack) = ''poller.js:42 (poll)'' \<and>
   extractCallSiteSignature (Some odd_stack) = ''poller.js:42 (poll)''"
proof -
  have h: "\<forall>l \<in> set (drop 1 (split_on CHR 0x0A odd_stack)). plain_line l"
    unfolding odd_lines by (simp add: odd_plain)
  show ?thesis
    using extraction_agreement [OF h] unfolding odd_lines odd_site by simp
qed

text \<open>
  The property as the specification states it (the same signature, sentinels included, on
  every stack) fails on a stack without frames, where the two sentinels differ.
\<close>

theorem sentinels_differ:
  "extractCallSite (Some ''Error'') \<noteq> extractCallSiteSignature (Some ''Error'')"
  by code_simp

text \<open>The two other differences: a path that ends in a slash, and the guard.\<close>

lemma trailing_slash_differs:
  "extractCallSiteSignature (Some (''Error'' @ [CHR 0x0A] @ ''  called at a/:1:2'')) = ''a/:1'' \<and>
   extractCallSite (Some (''Error'' @ [CHR 0x0A] @ ''  called at a/:1:2'')) = '':1''"
  by code_simp

lemma v8_stack_differs:
  "extractCallSite (Some v8_stack) = ''profiler.js:194 (trackedSetTimeout)'' \<and>
   extractCallSiteSignature (Some v8_stack) = ''<unknown call site>''"
  by code_simp

text \<open>
  What \<open>configure\<close> accepts has a top count of at least one, so the ranking theorem
  applies to every run.
\<close>

lemma configured_topCount:
  "configure v = Inr cfg \<Longrightarrow> \<exists>n. topCount cfg = Some (int n) \<and> 1 \<le> n"
proof -
  assume c: "configure v = Inr cfg"
  have "\<exists>k. or_else (parseInt10 (v_top v)) 20 = Some k"
    by (simp add: or_else_def split: option.splits)
  then obtain k where k: "or_else (parseInt10 (v_top v)) 20 = Some k" ..
  have "topCount cfg = Some (max 1 k)"
    using c k by (auto simp add: configure_def Let_def math_max_def split: if_splits)
  moreover have "max 1 k = int (nat (max 1 k))" "1 \<le> nat (max 1 k)" by simp_all
  ultimately show ?thesis by metis
qed

end
